(* ===== verification/Prelude.thy ===== *)
theory Prelude
  imports Main
begin

text \<open>
  Shared vocabulary of the Task-Manager development (\<open>src/todo_app.py\<close>): the
  Python built-ins the program relies on, written once as HOL functions.
  \<^item> Python \<open>str\<close> values are HOL strings; a character is read as the Latin-1 code
    point \<open>of_char c\<close>, so \<open>str.isspace\<close>, \<open>str.strip\<close> and the digit tests
    cover the code points 0..255;
  \<^item> \<open>str(n)\<close> for an \<open>int\<close> is \<open>show_int\<close>, and its decimal digits are read back
    by \<open>digits_value\<close>;
  \<^item> the \<open>for i, x in enumerate(xs): if p(x): ...; return\<close> idiom of the program is
    \<open>find_idx\<close>, the first index satisfying a test, and \<open>list.pop(i)\<close> is
    \<open>py_pop\<close>.
  The collection \<open>model_defs\<close> gathers the non-recursive definitions of the model, so
  that concrete runs are evaluated with \<open>simp add: model_defs\<close>.
\<close>

named_theorems model_defs "non-recursive definitions of the model, unfolded to evaluate concrete runs"

section \<open>Python strings\<close>

text \<open>\<open>str.isspace\<close> on the code points 0..255: tab, line feed, vertical tab, form
  feed, carriage return, the separators 0x1c..0x1f, space, NEL and NBSP.\<close>

definition is_py_space :: "char \<Rightarrow> bool" where
  "is_py_space c \<longleftrightarrow> of_char c \<in> {9, 10, 11, 12, 13, 28, 29, 30, 31, 32, 133, 160 :: nat}"

fun lstrip :: "string \<Rightarrow> string" where
  "lstrip [] = []"
| "lstrip (c # cs) = (if is_py_space c then lstrip cs else c # cs)"

text \<open>\<open>s.strip()\<close>: leading and trailing white space removed.\<close>

definition py_strip :: "string \<Rightarrow> string" where
  "py_strip s = rev (lstrip (rev (lstrip s)))"

declare py_strip_def [model_defs]

text \<open>Python truth value of a \<open>str\<close>: the empty string is false.\<close>

abbreviation py_truthy :: "string \<Rightarrow> bool" where
  "py_truthy s \<equiv> s \<noteq> []"

text \<open>\<open>sep.join(items)\<close>.\<close>

fun py_join :: "string \<Rightarrow> string list \<Rightarrow> string" where
  "py_join sep [] = []"
| "py_join sep [x] = x"
| "py_join sep (x # y # xs) = x @ sep @ py_join sep (y # xs)"

section \<open>Decimal digits\<close>

definition is_digit :: "char \<Rightarrow> bool" where
  "is_digit c \<longleftrightarrow> 48 \<le> (of_char c :: nat) \<and> (of_char c :: nat) \<le> 57"

definition digit_val :: "char \<Rightarrow> nat" where
  "digit_val c = of_char c - 48"

definition digit_char :: "nat \<Rightarrow> char" where
  "digit_char d = ''0123456789'' ! d"

declare is_digit_def [model_defs] digit_val_def [model_defs] digit_char_def [model_defs]

text \<open>The value of a string of decimal digits, most significant first.\<close>

definition digits_value :: "string \<Rightarrow> nat" where
  "digits_value cs = foldl (\<lambda>n c. 10 * n + digit_val c) 0 cs"

declare digits_value_def [model_defs]

text \<open>\<open>str(n)\<close> for a natural number and for an \<open>int\<close>.\<close>

fun show_nat :: "nat \<Rightarrow> string" where
  "show_nat n = (if n < 10 then [digit_char n] else show_nat (n div 10) @ [digit_char (n mod 10)])"

declare show_nat.simps [simp del]

definition show_int :: "int \<Rightarrow> string" where
  "show_int i = (if i < 0 then CHR ''-'' # show_nat (nat (- i)) else show_nat (nat i))"

declare show_int_def [model_defs]

text \<open>A number printed with at least \<open>w\<close> digits, padded with zeros on the left
  (\<open>%04d\<close>, \<open>%02d\<close> of \<open>strftime\<close>).\<close>

definition zpad :: "nat \<Rightarrow> nat \<Rightarrow> string" where
  "zpad w n = replicate (w - length (show_nat n)) (CHR ''0'') @ show_nat n"

declare zpad_def [model_defs]

text \<open>The last \<open>k\<close> decimal digits of \<open>n\<close>, most significant first: the shape of
  \<open>zpad k n\<close> when \<open>n < 10 ^ k\<close>.\<close>

fun fixed_digits :: "nat \<Rightarrow> nat \<Rightarrow> string" where
  "fixed_digits 0 n = []"
| "fixed_digits (Suc k) n = fixed_digits k (n div 10) @ [digit_char (n mod 10)]"

section \<open>Searching and removing in lists\<close>

text \<open>The index of the first element satisfying \<open>p\<close>: the \<open>for\<close> loop with an early
  \<open>return\<close> of \<open>mark_complete\<close> and \<open>delete_task\<close>.\<close>

fun find_idx :: "('a \<Rightarrow> bool) \<Rightarrow> 'a list \<Rightarrow> nat option" where
  "find_idx p [] = None"
| "find_idx p (x # xs) = (if p x then Some 0 else map_option Suc (find_idx p xs))"

text \<open>\<open>xs.pop(i)\<close>: the element at \<open>i\<close> and the list without it; \<open>IndexError\<close>
  (here \<open>None\<close>) out of range.\<close>

definition py_pop :: "nat \<Rightarrow> 'a list \<Rightarrow> ('a \<times> 'a list) option" where
  "py_pop i xs = (if i < length xs then Some (xs ! i, take i xs @ drop (Suc i) xs) else None)"

declare py_pop_def [model_defs]

section \<open>Lemmas on digits and decimal printing\<close>

lemma less_ten_cases: "(d::nat) < 10 \<Longrightarrow>
    d = 0 \<or> d = 1 \<or> d = 2 \<or> d = 3 \<or> d = 4 \<or> d = 5 \<or> d = 6 \<or> d = 7 \<or> d = 8 \<or> d = 9"
  by arith

lemma digit_char_is_digit [simp]: "d < 10 \<Longrightarrow> is_digit (digit_char d)"
  by (drule less_ten_cases) (auto simp: is_digit_def digit_char_def)

lemma digit_val_digit_char [simp]: "d < 10 \<Longrightarrow> digit_val (digit_char d) = d"
  by (drule less_ten_cases) (auto simp: digit_val_def digit_char_def)

lemma digits_value_snoc [simp]: "digits_value (cs @ [c]) = 10 * digits_value cs + digit_val c"
  by (simp add: digits_value_def)

lemma digits_value_Nil [simp]: "digits_value [] = 0"
  by (simp add: digits_value_def)

lemma digits_value_single [simp]: "digits_value [c] = digit_val c"
  by (simp add: digits_value_def)

lemma show_nat_digits: "c \<in> set (show_nat n) \<Longrightarrow> is_digit c"
proof (induction n rule: show_nat.induct)
  case (1 n)
  then show ?case
    by (cases "n < 10") (auto simp: show_nat.simps [of n])
qed

lemma show_nat_all_digits [simp]: "list_all is_digit (show_nat n)"
  by (simp add: list_all_iff show_nat_digits)

lemma show_nat_nonempty [simp]: "show_nat n \<noteq> []"
  by (simp add: show_nat.simps [of n])

lemma digits_value_show_nat [simp]: "digits_value (show_nat n) = n"
proof (induction n rule: show_nat.induct)
  case (1 n)
  then show ?case
    by (cases "n < 10") (simp_all add: show_nat.simps [of n])
qed

lemma show_nat_not_space [simp]: "c \<in> set (show_nat n) \<Longrightarrow> \<not> is_py_space c"
  by (drule show_nat_digits) (auto simp: is_digit_def is_py_space_def)

lemma show_nat_Cons: "\<exists>c t. show_nat n = c # t \<and> is_digit c"
  using show_nat_nonempty [of n] show_nat_digits [of _ n] by (cases "show_nat n") auto

lemma show_nat_hd_zero: "hd (show_nat n) = CHR ''0'' \<Longrightarrow> n = 0"
proof (induction n rule: show_nat.induct)
  case (1 n)
  show ?case
  proof (cases "n < 10")
    case True
    with "1.prems" have "digit_char n = CHR ''0''" by (simp add: show_nat.simps [of n])
    then have "digit_val (digit_char n) = 0" by (simp add: digit_val_def)
    with True show ?thesis by simp
  next
    case False
    with "1.prems" have "hd (show_nat (n div 10)) = CHR ''0''"
      by (simp add: show_nat.simps [of n])
    with "1.IH" False have "n div 10 = 0" by simp
    with False show ?thesis by simp
  qed
qed

lemma length_show_nat_less: "n < 10 ^ k \<Longrightarrow> 0 < k \<Longrightarrow> length (show_nat n) \<le> k"
proof (induction n arbitrary: k rule: show_nat.induct)
  case (1 n)
  show ?case
  proof (cases "n < 10")
    case True
    with "1.prems" show ?thesis by (simp add: show_nat.simps [of n])
  next
    case False
    with "1.prems" obtain k' where k: "k = Suc k'" and "0 < k'"
      by (cases k; cases "k - 1") (auto simp: not_less)
    with "1.prems" have "n div 10 < 10 ^ k'" by auto
    with "1.IH" False \<open>0 < k'\<close> have "length (show_nat (n div 10)) \<le> k'" by simp
    with False k show ?thesis by (simp add: show_nat.simps [of n])
  qed
qed

lemma fixed_digits_zero: "fixed_digits k 0 = replicate k (CHR ''0'')"
  by (induction k) (simp_all add: digit_char_def replicate_append_same)

lemma zpad_fixed_digits: "n < 10 ^ k \<Longrightarrow> 0 < k \<Longrightarrow> zpad k n = fixed_digits k n"
proof (induction n arbitrary: k rule: show_nat.induct)
  case (1 n)
  obtain k' where k: "k = Suc k'" using "1.prems"(2) by (cases k) auto
  show ?case
  proof (cases "n < 10")
    case True
    then have "zpad k n = replicate k' (CHR ''0'') @ [digit_char n]"
      by (simp add: zpad_def show_nat.simps [of n] k)
    with True k show ?thesis by (simp add: fixed_digits_zero)
  next
    case False
    with "1.prems" k have k': "0 < k'" "n div 10 < 10 ^ k'"
      by (auto intro: Nat.gr0I simp: less_mult_imp_div_less)
    with "1.IH" False have IH: "zpad k' (n div 10) = fixed_digits k' (n div 10)" by simp
    from False have "show_nat n = show_nat (n div 10) @ [digit_char (n mod 10)]"
      by (simp add: show_nat.simps [of n])
    then have "zpad k n = zpad k' (n div 10) @ [digit_char (n mod 10)]"
      by (simp add: zpad_def k)
    with IH k show ?thesis by simp
  qed
qed

lemma digits_value_fixed_digits [simp]: "digits_value (fixed_digits k n) = n mod 10 ^ k"
proof (induction k arbitrary: n)
  case 0
  then show ?case by simp
next
  case (Suc k)
  have "10 * (n div 10 mod 10 ^ k) + n mod 10 = n mod (10 * 10 ^ k)"
    by (simp add: mod_mult2_eq)
  with Suc show ?case by simp
qed

lemma length_fixed_digits [simp]: "length (fixed_digits k n) = k"
  by (induction k arbitrary: n) auto

lemma fixed_digits_all_digits: "c \<in> set (fixed_digits k n) \<Longrightarrow> is_digit c"
  by (induction k arbitrary: n) auto

lemma fixed_digits_2: "fixed_digits 2 n = [digit_char (n div 10 mod 10), digit_char (n mod 10)]"
  by (simp add: numeral_2_eq_2)

lemma fixed_digits_4:
  "fixed_digits 4 n =
     [digit_char (n div 1000 mod 10), digit_char (n div 100 mod 10),
      digit_char (n div 10 mod 10), digit_char (n mod 10)]"
proof -
  have "(4::nat) = Suc (Suc (Suc (Suc 0)))" by simp
  then show ?thesis by (simp only: fixed_digits.simps) (simp add: div_mult2_eq [symmetric])
qed

section \<open>Lemmas on stripping\<close>

lemma py_join_Cons: "py_join sep (x # xs) = x @ concat (map (\<lambda>y. sep @ y) xs)"
  by (induction xs arbitrary: x) auto

lemma lstrip_hd: "lstrip s \<noteq> [] \<Longrightarrow> \<not> is_py_space (hd (lstrip s))"
  by (induction s) auto

lemma lstrip_idem [simp]: "lstrip (lstrip s) = lstrip s"
  by (induction s) auto

lemma lstrip_no_space [simp]: "\<forall>c \<in> set s. \<not> is_py_space c \<Longrightarrow> lstrip s = s"
  by (cases s) auto

lemma lstrip_rev_lstrip: "lstrip (rev (lstrip (rev (lstrip s)))) = rev (lstrip (rev (lstrip s)))"
proof (cases "lstrip (rev (lstrip s))")
  case Nil
  then show ?thesis by simp
next
  case (Cons c cs)
  have "lstrip s \<noteq> []" using Cons by auto
  then have ne: "\<not> is_py_space (hd (lstrip s))" by (rule lstrip_hd)
  obtain d ds where ls: "lstrip s = d # ds" using \<open>lstrip s \<noteq> []\<close> by (cases "lstrip s") auto
  have "rev (lstrip (rev (d # ds))) \<noteq> []" using Cons ls by simp
  have "hd (rev (lstrip (rev (d # ds)))) = d"
  proof (induction ds rule: rev_induct)
    case Nil
    from ne ls show ?case by simp
  next
    case (snoc x xs)
    then show ?case by (auto simp: lstrip.simps(2) [of x])
  qed
  then show ?thesis using ne ls Cons
    by (cases "rev (lstrip (rev (d # ds)))") auto
qed

lemma py_strip_idem: "py_strip (py_strip s) = py_strip s"
  by (simp add: py_strip_def lstrip_rev_lstrip)

lemma py_strip_no_space [simp]: "\<forall>c \<in> set s. \<not> is_py_space c \<Longrightarrow> py_strip s = s"
  by (simp add: py_strip_def)

section \<open>Lemmas on searching\<close>

lemma find_idx_None_iff: "find_idx p xs = None \<longleftrightarrow> (\<forall>x \<in> set xs. \<not> p x)"
  by (induction xs) auto

lemma find_idx_Some: "find_idx p xs = Some i \<Longrightarrow> i < length xs \<and> p (xs ! i) \<and> (\<forall>j < i. \<not> p (xs ! j))"
proof (induction xs arbitrary: i)
  case Nil
  then show ?case by simp
next
  case (Cons x xs)
  then show ?case
    by (cases "p x") (auto simp: nth_Cons' less_Suc_eq_0_disj)
qed

lemma find_idx_append_Cons:
  "\<forall>y \<in> set ys. \<not> p y \<Longrightarrow> p x \<Longrightarrow> find_idx p (ys @ x # zs) = Some (length ys)"
  by (induction ys) auto

lemma find_idx_SomeE:
  assumes "find_idx p xs = Some i"
  obtains ys x zs where "xs = ys @ x # zs" "length ys = i" "p x" "\<forall>y \<in> set ys. \<not> p y"
proof -
  from find_idx_Some [OF assms] have i: "i < length xs" "p (xs ! i)" "\<forall>j < i. \<not> p (xs ! j)"
    by auto
  let ?ys = "take i xs"
  have "xs = ?ys @ xs ! i # drop (Suc i) xs" using i(1) by (simp add: id_take_nth_drop)
  moreover have "\<forall>y \<in> set ?ys. \<not> p y"
    using i(1,3) by (auto simp: in_set_conv_nth)
  ultimately show ?thesis using that i(1,2) by simp
qed

lemma py_pop_find_idx:
  "find_idx p xs = Some i \<Longrightarrow> \<exists>ys x zs. xs = ys @ x # zs \<and> p x \<and> (\<forall>y \<in> set ys. \<not> p y)
     \<and> py_pop i xs = Some (x, ys @ zs)"
proof (erule find_idx_SomeE)
  fix ys x zs
  assume "xs = ys @ x # zs" "length ys = i" "p x" "\<forall>y \<in> set ys. \<not> p y"
  then show ?thesis by (auto simp: py_pop_def nth_append)
qed

end
