(* ===== verification/Dates.thy ===== *)
theory Dates
  imports Prelude
begin

text \<open>
  Dates and \<open>validate_date\<close> (\<open>src/todo_app.py\<close>, lines 31--39), together with the
  parts of Python's \<open>datetime\<close> the program uses:
  \<^item> \<open>datetime.strptime(s, "%Y-%m-%d")\<close> is \<open>strptime_ymd\<close>. CPython compiles the
    format into the regular expression
    \<open>([0-9][0-9][0-9][0-9])-(1[0-2]|0[1-9]|[1-9])-(3[01]|[12][0-9]|0[1-9]|[1-9]| [1-9])\<close>, matches it
    at the start of the string (alternatives tried in order), raises \<open>ValueError\<close> when
    characters remain after the match, and raises \<open>ValueError\<close> again when the
    numbers are not a calendar date of years 1..9999. Each alternative is a matcher
    here, and the ordered choice \<open>orelse\<close> is the regular expression's \<open>|\<close>;
  \<^item> \<open>strftime("%Y-%m-%d")\<close> is \<open>strftime_ymd\<close>, \<open>strftime("%Y-%m-%d %H:%M:%S")\<close> is
    \<open>strftime_ymd_hms\<close>;
  \<^item> \<open>datetime.now()\<close> is a value of the record \<open>datetime\<close> (an extension of
    \<open>date\<close>) passed in by the caller, and \<open>.date()\<close> is \<open>date_of\<close>;
  \<^item> date comparison \<open><\<close> is \<open>date_less\<close>, lexicographic on year, month, day.
\<close>

section \<open>Dates and times\<close>

record date =
  year :: nat
  month :: nat
  day :: nat

record datetime = date +
  hour :: nat
  minute :: nat
  second :: nat

definition date_of :: "'a date_scheme \<Rightarrow> date" where
  "date_of t = \<lparr>year = year t, month = month t, day = day t\<rparr>"

definition is_leap :: "nat \<Rightarrow> bool" where
  "is_leap y \<longleftrightarrow> 4 dvd y \<and> (\<not> 100 dvd y \<or> 400 dvd y)"

definition days_in_month :: "nat \<Rightarrow> nat \<Rightarrow> nat" where
  "days_in_month y m =
     (if m = 2 then (if is_leap y then 29 else 28)
      else if m \<in> {4, 6, 9, 11} then 30 else 31)"

text \<open>The check of \<open>datetime.date(year, month, day)\<close>: \<open>MINYEAR = 1\<close>,
  \<open>MAXYEAR = 9999\<close>.\<close>

definition valid_ymd :: "nat \<Rightarrow> nat \<Rightarrow> nat \<Rightarrow> bool" where
  "valid_ymd y m d \<longleftrightarrow> 1 \<le> y \<and> y \<le> 9999 \<and> 1 \<le> m \<and> m \<le> 12 \<and> 1 \<le> d \<and> d \<le> days_in_month y m"

definition valid_date :: "date \<Rightarrow> bool" where
  "valid_date dt \<longleftrightarrow> valid_ymd (year dt) (month dt) (day dt)"

definition date_less :: "date \<Rightarrow> date \<Rightarrow> bool" where
  "date_less a b \<longleftrightarrow>
     year a < year b \<or> (year a = year b \<and> (month a < month b \<or> (month a = month b \<and> day a < day b)))"

declare date_of_def [model_defs] is_leap_def [model_defs] days_in_month_def [model_defs]
  valid_ymd_def [model_defs] valid_date_def [model_defs] date_less_def [model_defs]

section \<open>The regular expression of \<open>strptime\<close>\<close>

type_synonym 'a matcher = "string \<Rightarrow> ('a \<times> string) option"

definition digit_in :: "nat \<Rightarrow> nat \<Rightarrow> char \<Rightarrow> bool" where
  "digit_in lo hi c \<longleftrightarrow> is_digit c \<and> lo \<le> digit_val c \<and> digit_val c \<le> hi"

text \<open>A character class \<open>[lo-hi]\<close> of digits.\<close>

fun one_digit :: "nat \<Rightarrow> nat \<Rightarrow> nat matcher" where
  "one_digit lo hi (a # r) = (if digit_in lo hi a then Some (digit_val a, r) else None)"
| "one_digit lo hi [] = None"

text \<open>Two classes in a row, \<open>[lo1-hi1][lo2-hi2]\<close>, read as a two-digit number.\<close>

fun two_digits :: "nat \<Rightarrow> nat \<Rightarrow> nat \<Rightarrow> nat \<Rightarrow> nat matcher" where
  "two_digits lo1 hi1 lo2 hi2 (a # b # r) =
     (if digit_in lo1 hi1 a \<and> digit_in lo2 hi2 b then Some (10 * digit_val a + digit_val b, r)
      else None)"
| "two_digits lo1 hi1 lo2 hi2 _ = None"

text \<open>The alternative \<open>" [1-9]"\<close> of \<open>%d\<close>: a space and a digit.\<close>

fun space_digit :: "nat matcher" where
  "space_digit (a # b # r) = (if a = CHR '' '' \<and> digit_in 1 9 b then Some (digit_val b, r) else None)"
| "space_digit _ = None"

text \<open>\<open>%Y\<close>: four digits.\<close>

fun four_digits :: "nat matcher" where
  "four_digits (a # b # c # d # r) =
     (if is_digit a \<and> is_digit b \<and> is_digit c \<and> is_digit d
      then Some (digits_value [a, b, c, d], r) else None)"
| "four_digits _ = None"

text \<open>The literal \<open>-\<close> of the format.\<close>

fun dash :: "unit matcher" where
  "dash (a # r) = (if a = CHR ''-'' then Some ((), r) else None)"
| "dash [] = None"

text \<open>Ordered alternation \<open>p|q\<close>: \<open>q\<close> is tried only where \<open>p\<close> fails.\<close>

definition orelse :: "'a matcher \<Rightarrow> 'a matcher \<Rightarrow> 'a matcher" where
  "orelse p q s = (case p s of None \<Rightarrow> q s | Some r \<Rightarrow> Some r)"

text \<open>A match followed by the literal \<open>-\<close>.\<close>

definition then_dash :: "'a matcher \<Rightarrow> 'a matcher" where
  "then_dash p s = (case p s of None \<Rightarrow> None | Some (v, r) \<Rightarrow> map_option (\<lambda>(_, r'). (v, r')) (dash r))"

text \<open>\<open>%m\<close> followed by \<open>-\<close>. The regular expression engine backtracks into the
  alternatives of \<open>%m\<close> when the \<open>-\<close> after it fails, so the \<open>-\<close> is part of
  each alternative; \<open>%d\<close> ends the expression, so its first matching alternative
  is taken.\<close>

definition month_dash :: "nat matcher" where
  "month_dash =
     orelse (then_dash (two_digits 1 1 0 2))
       (orelse (then_dash (two_digits 0 0 1 9)) (then_dash (one_digit 1 9)))"

definition day_re :: "nat matcher" where
  "day_re =
     orelse (two_digits 3 3 0 1)
       (orelse (two_digits 1 2 0 9)
         (orelse (two_digits 0 0 1 9) (orelse (one_digit 1 9) space_digit)))"

declare digit_in_def [model_defs] orelse_def [model_defs] then_dash_def [model_defs]
  month_dash_def [model_defs] day_re_def [model_defs]

section \<open>strptime and strftime\<close>

text \<open>\<open>datetime.strptime(s, "%Y-%m-%d").date()\<close>: \<open>None\<close> is the \<open>ValueError\<close>
  (no match, unconverted data remains, or not a calendar date).\<close>

definition strptime_ymd :: "string \<Rightarrow> date option" where
  "strptime_ymd s =
     (case four_digits s of None \<Rightarrow> None | Some (y, r1) \<Rightarrow>
      (case dash r1 of None \<Rightarrow> None | Some (_, r2) \<Rightarrow>
       (case month_dash r2 of None \<Rightarrow> None | Some (m, r3) \<Rightarrow>
        (case day_re r3 of None \<Rightarrow> None | Some (d, r4) \<Rightarrow>
          (if r4 \<noteq> [] then None
           else if valid_ymd y m d then Some \<lparr>year = y, month = m, day = d\<rparr>
           else None)))))"

definition strftime_ymd :: "'a date_scheme \<Rightarrow> string" where
  "strftime_ymd t = zpad 4 (year t) @ ''-'' @ zpad 2 (month t) @ ''-'' @ zpad 2 (day t)"

definition strftime_ymd_hms :: "datetime \<Rightarrow> string" where
  "strftime_ymd_hms t =
     strftime_ymd t @ '' '' @ zpad 2 (hour t) @ '':'' @ zpad 2 (minute t) @ '':'' @ zpad 2 (second t)"

declare strptime_ymd_def [model_defs] strftime_ymd_def [model_defs] strftime_ymd_hms_def [model_defs]

section \<open>validate_date\<close>

datatype date_error = InvalidFormat | PastDate

text \<open>The message of the \<open>(False, msg)\<close> result.\<close>

fun date_error_msg :: "date_error \<Rightarrow> string" where
  "date_error_msg InvalidFormat = ''Invalid date format. Use YYYY-MM-DD.''"
| "date_error_msg PastDate = ''Due date cannot be in the past.''"

text \<open>\<open>validate_date(date_str)\<close> with \<open>datetime.now().date()\<close> given as \<open>today\<close>:
  \<open>Inl e\<close> is the result \<open>(False, date_error_msg e)\<close>, \<open>Inr s\<close> is \<open>(True, s)\<close>.\<close>

definition validate_date :: "date \<Rightarrow> string \<Rightarrow> date_error + string" where
  "validate_date today date_str =
     (case strptime_ymd date_str of
        None \<Rightarrow> Inl InvalidFormat
      | Some input_date \<Rightarrow>
          if date_less input_date today then Inl PastDate
          else Inr (strftime_ymd input_date))"

declare validate_date_def [model_defs]

section \<open>Printing and parsing dates\<close>

lemma digit_in_digit_char [simp]: "d < 10 \<Longrightarrow> digit_in lo hi (digit_char d) \<longleftrightarrow> lo \<le> d \<and> d \<le> hi"
  by (simp add: digit_in_def)

lemma zpad_2: "n < 100 \<Longrightarrow> zpad 2 n = [digit_char (n div 10), digit_char (n mod 10)]"
  using zpad_fixed_digits [of n 2] by (simp add: fixed_digits_2)

lemma four_digits_zpad: "y < 10000 \<Longrightarrow> four_digits (zpad 4 y @ r) = Some (y, r)"
proof -
  assume y: "y < 10000"
  then have z: "zpad 4 y = fixed_digits 4 y" by (simp add: zpad_fixed_digits)
  have v: "digits_value (fixed_digits 4 y) = y" using y by simp
  show ?thesis
    using v unfolding z fixed_digits_4 by simp
qed

lemma digit_char_ne_space [simp]: "d < 10 \<Longrightarrow> digit_char d \<noteq> CHR '' ''"
  by (drule less_ten_cases) (auto simp: digit_char_def)

lemma month_dash_zpad: "1 \<le> m \<Longrightarrow> m \<le> 12 \<Longrightarrow> month_dash (zpad 2 m @ CHR ''-'' # r) = Some (m, r)"
proof (cases "m < 10")
  case True
  assume "1 \<le> m"
  with True show ?thesis by (simp add: zpad_2 month_dash_def orelse_def then_dash_def)
next
  case False
  assume "m \<le> 12"
  with False have "m div 10 = 1" "m mod 10 = m - 10" "m - 10 \<le> 2" by arith+
  with False show ?thesis by (simp add: zpad_2 month_dash_def orelse_def then_dash_def)
qed

lemma day_re_zpad: "1 \<le> d \<Longrightarrow> d \<le> 31 \<Longrightarrow> day_re (zpad 2 d) = Some (d, [])"
proof -
  assume d: "1 \<le> d" "d \<le> 31"
  consider "d < 10" | "10 \<le> d" "d < 30" | "30 \<le> d" by arith
  then show ?thesis
  proof cases
    case 1
    with d show ?thesis by (simp add: zpad_2 day_re_def orelse_def)
  next
    case 2
    then have "1 \<le> d div 10" "d div 10 \<le> 2" by arith+
    with 2 show ?thesis by (simp add: zpad_2 day_re_def orelse_def)
  next
    case 3
    with d have "d div 10 = 3" "d mod 10 = d - 30" "d - 30 \<le> 1" by arith+
    with 3 show ?thesis by (simp add: zpad_2 day_re_def orelse_def)
  qed
qed

lemma days_in_month_le: "days_in_month y m \<le> 31"
  by (simp add: days_in_month_def)

lemma strptime_strftime: "valid_date d \<Longrightarrow> strptime_ymd (strftime_ymd d) = Some d"
proof -
  assume v: "valid_date d"
  then have y: "year d < 10000" and m: "1 \<le> month d" "month d \<le> 12"
    and dd: "1 \<le> day d" "day d \<le> 31"
    using days_in_month_le [of "year d" "month d"] by (auto simp: valid_date_def valid_ymd_def)
  show ?thesis
    using four_digits_zpad [OF y] month_dash_zpad [OF m] day_re_zpad [OF dd] v
    by (simp add: strptime_ymd_def strftime_ymd_def valid_date_def)
qed

lemma strptime_valid: "strptime_ymd s = Some d \<Longrightarrow> valid_date d"
  by (auto simp: strptime_ymd_def valid_date_def split: option.splits prod.splits if_splits)

section \<open>What the matchers consume\<close>

lemma one_digit_Some: "one_digit lo hi s = Some (v, r) \<Longrightarrow> \<exists>c. s = c # r \<and> is_digit c"
  by (cases s) (auto simp: digit_in_def split: if_splits)

lemma two_digits_Some: "two_digits lo1 hi1 lo2 hi2 s = Some (v, r) \<Longrightarrow> \<exists>a b. s = a # b # r \<and> is_digit b"
  by (cases "(lo1, hi1, lo2, hi2, s)" rule: two_digits.cases) (auto simp: digit_in_def split: if_splits)

lemma space_digit_Some: "space_digit s = Some (v, r) \<Longrightarrow> \<exists>a b. s = a # b # r \<and> is_digit b"
  by (cases s rule: space_digit.cases) (auto simp: digit_in_def split: if_splits)

lemma day_re_Some: "day_re s = Some (v, r) \<Longrightarrow> \<exists>pre. s = pre @ r \<and> pre \<noteq> [] \<and> is_digit (last pre)"
  unfolding day_re_def orelse_def
  by (fastforce split: option.splits dest!: one_digit_Some two_digits_Some space_digit_Some)

lemma four_digits_Some: "four_digits s = Some (v, r) \<Longrightarrow> \<exists>pre. s = pre @ r"
  by (cases s rule: four_digits.cases) (auto split: if_splits)

lemma dash_Some: "dash s = Some (v, r) \<Longrightarrow> \<exists>pre. s = pre @ r"
  by (cases s) (auto split: if_splits)

lemma then_dash_Some: "(\<And>s v r. p s = Some (v, r) \<Longrightarrow> \<exists>pre. s = pre @ r) \<Longrightarrow>
    then_dash p s = Some (v, r) \<Longrightarrow> \<exists>pre. s = pre @ r"
  unfolding then_dash_def by (fastforce split: option.splits dest!: dash_Some)

lemma month_dash_Some: "month_dash s = Some (v, r) \<Longrightarrow> \<exists>pre. s = pre @ r"
proof -
  have "\<And>lo1 hi1 lo2 hi2 s v r. two_digits lo1 hi1 lo2 hi2 s = Some (v, r) \<Longrightarrow> \<exists>pre. s = pre @ r"
    by (fastforce dest: two_digits_Some)
  moreover have "\<And>lo hi s v r. one_digit lo hi s = Some (v, r) \<Longrightarrow> \<exists>pre. s = pre @ r"
    by (fastforce dest: one_digit_Some)
  ultimately show "month_dash s = Some (v, r) \<Longrightarrow> \<exists>pre. s = pre @ r"
    unfolding month_dash_def orelse_def
    by (auto split: option.splits dest!: then_dash_Some [rotated])
qed

lemma strptime_last_digit: "strptime_ymd s = Some d \<Longrightarrow> s \<noteq> [] \<and> is_digit (last s)"
  unfolding strptime_ymd_def
  by (fastforce split: option.splits prod.splits if_splits
      dest!: four_digits_Some dash_Some month_dash_Some day_re_Some)

section \<open>Properties of validate_date\<close>

lemma validate_date_Inr_iff:
  "validate_date today s = Inr r \<longleftrightarrow>
     (\<exists>d. strptime_ymd s = Some d \<and> \<not> date_less d today \<and> r = strftime_ymd d)"
  by (auto simp: validate_date_def split: option.splits)

lemma validate_date_fixed: "validate_date today s = Inr r \<Longrightarrow> validate_date today r = Inr r"
proof -
  assume "validate_date today s = Inr r"
  then obtain d where d: "strptime_ymd s = Some d" "\<not> date_less d today" "r = strftime_ymd d"
    by (auto simp: validate_date_Inr_iff)
  then have "strptime_ymd r = Some d" by (simp add: strptime_strftime strptime_valid)
  with d show ?thesis by (simp add: validate_date_def)
qed

text \<open>C11: a due date accepted by \<open>validate_date\<close> is a calendar date, not before today,
  and the result is that date printed in the canonical \<open>YYYY-MM-DD\<close> form.\<close>

theorem validate_date_accepts:
  assumes "validate_date today s = Inr r"
  shows "\<exists>d. strptime_ymd s = Some d \<and> valid_date d \<and> \<not> date_less d today \<and> r = strftime_ymd d
           \<and> length r = 10"
proof -
  from assms obtain d where d: "strptime_ymd s = Some d" "\<not> date_less d today" "r = strftime_ymd d"
    by (auto simp: validate_date_Inr_iff)
  from d(1) have v: "valid_date d" by (rule strptime_valid)
  then have "year d < 10000" "month d < 100" "day d < 100"
    using days_in_month_le [of "year d" "month d"] by (auto simp: valid_date_def valid_ymd_def)
  then have "length r = 10"
    using d(3) by (simp add: strftime_ymd_def zpad_fixed_digits)
  with d v show ?thesis by blast
qed

text \<open>C12: the string returned by \<open>validate_date\<close> is a fixed point: validating it again on
  the same day returns it unchanged (normalisation is idempotent).\<close>

theorem validate_date_idempotent:
  assumes "validate_date today s = Inr r"
  shows "validate_date today r = Inr r"
  using assms by (rule validate_date_fixed)

text \<open>C13: \<open>validate_date\<close> fails with \<open>InvalidFormat\<close> exactly when \<open>strptime\<close> raises,
  and with \<open>PastDate\<close> exactly when the parsed date is before today.\<close>

theorem validate_date_errors:
  "validate_date today s = Inl e \<longleftrightarrow>
     (e = InvalidFormat \<and> strptime_ymd s = None)
     \<or> (e = PastDate \<and> (\<exists>d. strptime_ymd s = Some d \<and> date_less d today))"
  by (auto simp: validate_date_def split: option.splits)

text \<open>C14: \<open>strptime("%Y-%m-%d")\<close> reads back exactly what \<open>strftime("%Y-%m-%d")\<close>
  printed, for every calendar date of years 1..9999, and for nothing else.\<close>

theorem strptime_strftime_roundtrip:
  "strptime_ymd (strftime_ymd d) = Some d \<longleftrightarrow> valid_date d"
  using strptime_strftime strptime_valid by blast

lemma digit_in_sep [simp]: "\<not> digit_in lo hi CHR ''-''" "\<not> digit_in lo hi CHR '' ''"
  by (simp_all add: digit_in_def is_digit_def)

lemma month_dash_one_digit:
  "1 \<le> m \<Longrightarrow> m < 10 \<Longrightarrow> month_dash (digit_char m # CHR ''-'' # r) = Some (m, r)"
  by (simp add: month_dash_def orelse_def then_dash_def)

lemma day_re_one_digit: "1 \<le> d \<Longrightarrow> d < 10 \<Longrightarrow> day_re [digit_char d] = Some (d, [])"
  by (simp add: day_re_def orelse_def)

lemma day_re_space_digit: "1 \<le> d \<Longrightarrow> d < 10 \<Longrightarrow> day_re [CHR '' '', digit_char d] = Some (d, [])"
  by (simp add: day_re_def orelse_def)

text \<open>C18: \<open>validate_date\<close> accepts spellings that are not \<open>YYYY-MM-DD\<close>: every
  date from today on with a month and a day below 10 is accepted written with a
  one-digit month and a one-digit day, or a day written as a space and a digit (the
  \<open>" [1-9]"\<close> alternative of \<open>%d\<close>), and is returned in the canonical form.\<close>

theorem validate_date_lenient_format:
  assumes "valid_date d" "month d < 10" "day d < 10" "\<not> date_less d today"
  shows "validate_date today (zpad 4 (year d) @ CHR ''-'' # digit_char (month d) # CHR ''-'' # [digit_char (day d)])
           = Inr (strftime_ymd d)
         \<and> validate_date today (zpad 4 (year d) @ CHR ''-'' # digit_char (month d) # CHR ''-'' # CHR '' '' # [digit_char (day d)])
           = Inr (strftime_ymd d)"
proof -
  from assms(1) have y: "year d < 10000" and m: "1 \<le> month d" and dd: "1 \<le> day d"
    and v: "valid_ymd (year d) (month d) (day d)"
    by (auto simp: valid_date_def valid_ymd_def)
  have d: "\<lparr>year = year d, month = month d, day = day d\<rparr> = d" by simp
  show ?thesis
    using four_digits_zpad [OF y] month_dash_one_digit [OF m assms(2)]
      day_re_one_digit [OF dd assms(3)] day_re_space_digit [OF dd assms(3)] v assms(4)
    by (simp add: validate_date_def strptime_ymd_def d)
qed

text \<open>C32: \<open>strftime("%Y-%m-%d %H:%M:%S")\<close>, the \<open>created_at\<close> stamp of
  \<open>add_task\<close>, is always 19 characters with its separators at fixed positions, for
  every clock reading whose fields are in range: the zero padding makes each field
  exactly its width.\<close>

theorem created_at_format:
  assumes "year t < 10000" "month t < 100" "day t < 100" "hour t < 100" "minute t < 100" "second t < 100"
  shows "length (strftime_ymd_hms t) = 19
         \<and> strftime_ymd_hms t ! 4 = CHR ''-'' \<and> strftime_ymd_hms t ! 7 = CHR ''-''
         \<and> strftime_ymd_hms t ! 10 = CHR '' '' \<and> strftime_ymd_hms t ! 13 = CHR '':''
         \<and> strftime_ymd_hms t ! 16 = CHR '':''"
proof -
  have z: "zpad 4 (year t) = fixed_digits 4 (year t)" "zpad 2 (month t) = fixed_digits 2 (month t)"
    "zpad 2 (day t) = fixed_digits 2 (day t)" "zpad 2 (hour t) = fixed_digits 2 (hour t)"
    "zpad 2 (minute t) = fixed_digits 2 (minute t)" "zpad 2 (second t) = fixed_digits 2 (second t)"
    using assms by (simp_all add: zpad_fixed_digits)
  show ?thesis by (simp add: strftime_ymd_hms_def strftime_ymd_def z nth_append)
qed

end
