(* ===== verification/Json.thy ===== *)
theory Json
  imports Prelude
begin

text \<open>
  The JSON values the program stores and Python's encoder for them, as
  \<open>save_tasks\<close> (\<open>src/todo_app.py\<close>, line 27) calls it: \<open>json.dump(tasks, file,
  indent=4)\<close>. The \<open>json\<close> module is Python's standard library, not code of the
  repository; it is modelled from its documented behaviour and from the file format
  of the specification (section 6):
  \<^item> \<open>json\<close> is a JSON document: \<open>null\<close>, booleans, integers, the lexeme of a
    non-integer number (\<open>JFloat\<close>, kept as read), strings and arrays, and objects as
    association lists in key order (a Python \<open>dict\<close> keeps insertion order);
  \<^item> \<open>json_quote\<close> is \<open>ensure_ascii\<close> string encoding: \<open>"\<close> and \<open>\\\<close> are
    escaped, \<open>\b \f \n \r \t\<close> by their short escapes, every other character outside
    \<open>' '..'~'\<close> as \<open>\u00XX\<close> with lower-case hexadecimal digits;
  \<^item> \<open>dumps_at l v\<close> prints \<open>v\<close> at nesting level \<open>l\<close> with \<open>indent=4\<close>: an
    element of a non-empty array or object on its own line indented by \<open>4 (l + 1)\<close>
    spaces, separators \<open>","\<close> and \<open>": "\<close>, the closing bracket on a line indented by
    \<open>4 l\<close> spaces, \<open>[]\<close> and \<open>{}\<close> for empty containers, no final newline.
\<close>

datatype json =
    JNull
  | JBool bool
  | JInt int
  | JFloat string
  | JStr string
  | JArr "json list"
  | JObj "(string \<times> json) list"

section \<open>Encoding strings\<close>

definition hex_digit :: "nat \<Rightarrow> char" where
  "hex_digit d = ''0123456789abcdef'' ! d"

text \<open>\<open>'\\u{0:04x}'.format(n)\<close> for a code point below 256.\<close>

abbreviation bsl :: char where
  "bsl \<equiv> CHR 0x5C"

definition u_escape :: "nat \<Rightarrow> string" where
  "u_escape n = bsl # ''u00'' @ [hex_digit (n div 16), hex_digit (n mod 16)]"

definition json_escape_char :: "char \<Rightarrow> string" where
  "json_escape_char c =
     (if c = bsl then [bsl, bsl]
      else if c = CHR 0x22 then [bsl, CHR 0x22]
      else if c = CHR 0x08 then [bsl, CHR ''b'']
      else if c = CHR 0x0C then [bsl, CHR ''f'']
      else if c = CHR 0x0A then [bsl, CHR ''n'']
      else if c = CHR 0x0D then [bsl, CHR ''r'']
      else if c = CHR 0x09 then [bsl, CHR ''t'']
      else if of_char c < (32::nat) \<or> (126::nat) < of_char c then u_escape (of_char c)
      else [c])"

definition json_quote :: "string \<Rightarrow> string" where
  "json_quote s = CHR 0x22 # concat (map json_escape_char s) @ [CHR 0x22]"

declare hex_digit_def [model_defs] u_escape_def [model_defs] json_escape_char_def [model_defs]
  json_quote_def [model_defs]

section \<open>The indented encoder\<close>

definition indent :: "nat \<Rightarrow> string" where
  "indent l = replicate (4 * l) (CHR '' '')"

definition newline_indent :: "nat \<Rightarrow> string" where
  "newline_indent l = CHR 0x0A # indent l"

declare indent_def [model_defs] newline_indent_def [model_defs]

text \<open>The items of a non-empty container at level \<open>l\<close>, each on its own line.\<close>

definition block :: "nat \<Rightarrow> char \<Rightarrow> char \<Rightarrow> string list \<Rightarrow> string" where
  "block l opn cls items =
     (if items = [] then [opn, cls]
      else opn # newline_indent (Suc l) @ py_join (CHR '','' # newline_indent (Suc l)) items
           @ newline_indent l @ [cls])"

declare block_def [model_defs]

fun dumps_at :: "nat \<Rightarrow> json \<Rightarrow> string" where
  "dumps_at l JNull = ''null''"
| "dumps_at l (JBool b) = (if b then ''true'' else ''false'')"
| "dumps_at l (JInt i) = show_int i"
| "dumps_at l (JFloat lexeme) = lexeme"
| "dumps_at l (JStr s) = json_quote s"
| "dumps_at l (JArr vs) = block l (CHR ''['') (CHR '']'') (map (dumps_at (Suc l)) vs)"
| "dumps_at l (JObj kvs) =
     block l (CHR ''{'') (CHR ''}'') (map (\<lambda>(k, v). json_quote k @ '': '' @ dumps_at (Suc l) v) kvs)"

text \<open>\<open>json.dumps(v, indent=4)\<close>, the text \<open>json.dump\<close> writes.\<close>

definition json_dumps :: "json \<Rightarrow> string" where
  "json_dumps v = dumps_at 0 v"

declare json_dumps_def [model_defs]

end
