(* ===== verification/Tasks.thy ===== *)
theory Tasks
  imports Dates Json
begin

text \<open>
  A task is the dictionary built by \<open>add_task\<close> (\<open>src/todo_app.py\<close>, lines 44--51),
  here the record \<open>task\<close> with one field per key: \<open>"id"\<close> is \<open>task_id\<close> (the name
  \<open>id\<close> is HOL's identity), \<open>"due_date"\<close> is \<open>None\<close> for JSON \<open>null\<close>. The task
  list is what \<open>json.dump\<close> writes: \<open>json_of_task\<close> builds the object with the keys
  in the order of the dictionary literal, and \<open>task_of_json\<close> reads such an object
  back. A JSON document that is not a list of such objects has no task reading: the
  program would go on with a list of arbitrary dictionaries, which the model does not
  follow (see \<open>Storage\<close>).
\<close>

record task =
  task_id :: int
  description :: string
  category :: string
  completed :: bool
  created_at :: string
  due_date :: "string option"

section \<open>Tasks as JSON objects\<close>

definition json_of_opt_str :: "string option \<Rightarrow> json" where
  "json_of_opt_str so = (case so of None \<Rightarrow> JNull | Some s \<Rightarrow> JStr s)"

definition json_of_task :: "task \<Rightarrow> json" where
  "json_of_task t =
     JObj [(''id'', JInt (task_id t)),
           (''description'', JStr (description t)),
           (''category'', JStr (category t)),
           (''completed'', JBool (completed t)),
           (''created_at'', JStr (created_at t)),
           (''due_date'', json_of_opt_str (due_date t))]"

definition json_of_tasks :: "task list \<Rightarrow> json" where
  "json_of_tasks ts = JArr (map json_of_task ts)"

declare json_of_opt_str_def [model_defs] json_of_task_def [model_defs] json_of_tasks_def [model_defs]

fun get_int :: "json \<Rightarrow> int option" where
  "get_int (JInt i) = Some i"
| "get_int _ = None"

fun get_str :: "json \<Rightarrow> string option" where
  "get_str (JStr s) = Some s"
| "get_str _ = None"

fun get_bool :: "json \<Rightarrow> bool option" where
  "get_bool (JBool b) = Some b"
| "get_bool _ = None"

fun get_opt_str :: "json \<Rightarrow> string option option" where
  "get_opt_str JNull = Some None"
| "get_opt_str (JStr s) = Some (Some s)"
| "get_opt_str _ = None"

text \<open>The task an object stands for, when it has exactly the six keys of
  \<open>add_task\<close>, in that order, with values of the types \<open>add_task\<close> stores.\<close>

fun task_of_json :: "json \<Rightarrow> task option" where
  "task_of_json (JObj [(k1, v1), (k2, v2), (k3, v3), (k4, v4), (k5, v5), (k6, v6)]) =
     (if [k1, k2, k3, k4, k5, k6] \<noteq> [''id'', ''description'', ''category'', ''completed'', ''created_at'', ''due_date'']
      then None
      else (case (get_int v1, get_str v2, get_str v3, get_bool v4, get_str v5, get_opt_str v6) of
              (Some i, Some d, Some c, Some b, Some t, Some dd) \<Rightarrow>
                Some \<lparr>task_id = i, description = d, category = c, completed = b,
                      created_at = t, due_date = dd\<rparr>
            | _ \<Rightarrow> None))"
| "task_of_json _ = None"

fun tasks_of_json :: "json \<Rightarrow> task list option" where
  "tasks_of_json (JArr vs) =
     (let ts = map task_of_json vs in if None \<in> set ts then None else Some (map the ts))"
| "tasks_of_json _ = None"

section \<open>Decoding inverts encoding\<close>

lemma task_of_json_of_task [simp]: "task_of_json (json_of_task t) = Some t"
  by (cases "due_date t") (simp_all add: json_of_task_def json_of_opt_str_def)

lemma tasks_of_json_of_tasks [simp]: "tasks_of_json (json_of_tasks ts) = Some ts"
proof -
  have "map task_of_json (map json_of_task ts) = map Some ts" by simp
  then show ?thesis by (simp add: json_of_tasks_def comp_def)
qed

lemma get_int_Some: "get_int v = Some i \<Longrightarrow> v = JInt i"
  by (cases v) auto

lemma get_str_Some: "get_str v = Some s \<Longrightarrow> v = JStr s"
  by (cases v) auto

lemma get_bool_Some: "get_bool v = Some b \<Longrightarrow> v = JBool b"
  by (cases v) auto

lemma get_opt_str_Some: "get_opt_str v = Some so \<Longrightarrow> v = json_of_opt_str so"
  by (cases v) (auto simp: json_of_opt_str_def)

lemma task_of_json_Some: "task_of_json v = Some t \<Longrightarrow> v = json_of_task t"
  by (induction v rule: task_of_json.induct)
     (auto simp: json_of_task_def split: if_splits option.splits
       dest!: get_int_Some get_str_Some get_bool_Some get_opt_str_Some)

lemma map_task_of_json_Some:
  "None \<notin> task_of_json ` set vs \<Longrightarrow> map (json_of_task \<circ> (the \<circ> task_of_json)) vs = vs"
proof (rule map_idI)
  fix v assume "None \<notin> task_of_json ` set vs" "v \<in> set vs"
  then obtain t where "task_of_json v = Some t" by (cases "task_of_json v") force+
  then show "(json_of_task \<circ> (the \<circ> task_of_json)) v = v" by (auto dest: task_of_json_Some)
qed

text \<open>Reading the saved JSON back as tasks gives a task list exactly when the
  document is the encoding of that list: decoding inverts \<open>json_of_tasks\<close> and accepts
  nothing else.\<close>

lemma tasks_json_codec: "tasks_of_json v = Some ts \<longleftrightarrow> v = json_of_tasks ts"
proof
  assume h: "tasks_of_json v = Some ts"
  then obtain vs where v: "v = JArr vs" by (cases v) auto
  with h have "None \<notin> set (map task_of_json vs)" "ts = map the (map task_of_json vs)"
    by (auto simp: Let_def split: if_splits)
  with v show "v = json_of_tasks ts"
    by (simp add: json_of_tasks_def map_task_of_json_Some)
next
  assume "v = json_of_tasks ts"
  then show "tasks_of_json v = Some ts" by simp
qed
end
