(* ===== verification/Console.thy ===== *)
theory Console
  imports Prelude
begin

text \<open>
  What the program writes to the terminal. Every \<open>print\<close> and every \<open>input(prompt)\<close>
  of \<open>src/todo_app.py\<close> is one constructor of \<open>msg\<close>, so that the status signals
  of the store (task added, not found, save failed, ...) are data a property can talk
  about; \<open>render\<close> gives the exact text each one writes, as the f-string of the
  source builds it. Exception texts (\<open>{e}\<close>) are the strings carried by the
  constructor. \<open>py_exc\<close> lists the exceptions that escape to the top level and end
  the process.
\<close>

datatype msg =
    InvalidJsonMsg
  | LoadErrorMsg string
  | SaveErrorMsg string
  | TaskAddedMsg string string "string option"
  | MarkedMsg int
  | NotFoundMsg int
  | MarkErrorMsg string
  | DeletedMsg int string
  | DeleteErrorMsg string
  | NoTasksMsg
  | RowMsg bool int string string string string
  | Text string
  | Prompt string

datatype py_exc = ValueError | EOFError

text \<open>The check mark U+2713 of \<open>display_tasks\<close>, as the UTF-8 bytes written.\<close>

definition check_mark :: string where
  "check_mark = [CHR 0xE2, CHR 0x9C, CHR 0x93]"

fun render :: "msg \<Rightarrow> string" where
  "render InvalidJsonMsg = ''Error: Invalid JSON file. Initializing empty task list.''"
| "render (LoadErrorMsg e) = ''Error loading tasks: '' @ e"
| "render (SaveErrorMsg e) = ''Error saving tasks: '' @ e"
| "render (TaskAddedMsg d c due) =
     ''Task added: '' @ d @ '' (Category: '' @ c
     @ (case due of Some s \<Rightarrow> if py_truthy s then '', Due: '' @ s else [] | None \<Rightarrow> []) @ '')''"
| "render (MarkedMsg i) = ''Task '' @ show_int i @ '' marked as completed.''"
| "render (NotFoundMsg i) = ''Error: Task ID '' @ show_int i @ '' not found.''"
| "render (MarkErrorMsg e) = ''Error marking task: '' @ e"
| "render (DeletedMsg i d) = ''Task '' @ show_int i @ '' deleted: '' @ d"
| "render (DeleteErrorMsg e) = ''Error deleting task: '' @ e"
| "render NoTasksMsg = ''No tasks found.''"
| "render (RowMsg done i d c due_status created) =
     ''['' @ (if done then check_mark else '' '') @ ''] ID: '' @ show_int i @ '' | '' @ d
     @ '' | Category: '' @ c @ due_status @ '' | Created: '' @ created"
| "render (Text s) = s"
| "render (Prompt s) = s"

text \<open>The terminal text of a list of messages: \<open>print\<close> ends its line, \<open>input\<close> does
  not.\<close>

fun console_text :: "msg list \<Rightarrow> string" where
  "console_text [] = []"
| "console_text (Prompt s # ms) = s @ console_text ms"
| "console_text (m # ms) = render m @ [CHR 0x0A] @ console_text ms"

declare check_mark_def [model_defs]

end
