(* ===== verification/Store.thy ===== *)
theory Store
  imports Tasks Console "HOL-Library.Sublist"
begin

text \<open>
  The task store of \<open>src/todo_app.py\<close>: the list \<open>tasks\<close> that \<open>main\<close> holds
  and passes to every function, the file \<open>tasks.json\<close>, and the terminal.
  \<^item> \<open>store\<close> is that state: \<open>tasks\<close>, the \<open>disk\<close> (the file's content, and the
    error text an \<open>open\<close> of the file for reading or for writing raises, if it does)
    and \<open>out\<close>, the messages written so far;
  \<^item> \<open>save_tasks\<close> (lines 23--29) rewrites the whole file with \<open>json_dumps\<close> of the
    list, or reports the error of \<open>open(TASKS_FILE, 'w')\<close> and leaves the file alone;
  \<^item> \<open>add_task\<close> (41--57), \<open>mark_complete\<close> (59--70) and \<open>delete_task\<close> (72--83)
    mutate the list in place, which is here the updated \<open>tasks\<close> field; their scans
    for the first task with the id are \<open>find_idx\<close>;
  \<^item> \<open>display_tasks\<close> (85--101) returns the rows it prints and, when
    \<open>datetime.strptime\<close> raises on a stored due date, the \<open>ValueError\<close> that the
    function does not catch. Clock readings are arguments: \<open>now\<close> for
    \<open>datetime.now()\<close>, \<open>today\<close> for \<open>datetime.now().date()\<close>.
\<close>

record disk =
  content :: "string option"
  read_error :: "string option"
  write_error :: "string option"

record store =
  tasks :: "task list"
  disk :: disk
  out :: "msg list"

section \<open>save_tasks\<close>

definition save_tasks :: "task list \<Rightarrow> disk \<Rightarrow> disk \<times> msg list" where
  "save_tasks ts d =
     (case write_error d of
        None \<Rightarrow> (d\<lparr>content := Some (json_dumps (json_of_tasks ts))\<rparr>, [])
      | Some e \<Rightarrow> (d, [SaveErrorMsg e]))"

text \<open>The list replaced by \<open>ts\<close>, saved, and the messages \<open>ms\<close> printed after the
  save's own.\<close>

definition commit :: "task list \<Rightarrow> msg list \<Rightarrow> store \<Rightarrow> store" where
  "commit ts ms s =
     (let (d', saved) = save_tasks ts (disk s)
      in s\<lparr>tasks := ts, disk := d', out := out s @ saved @ ms\<rparr>)"

definition emit :: "msg \<Rightarrow> store \<Rightarrow> store" where
  "emit m s = s\<lparr>out := out s @ [m]\<rparr>"

declare save_tasks_def [model_defs] commit_def [model_defs] emit_def [model_defs]

section \<open>add_task, mark_complete, delete_task\<close>

text \<open>The new task of \<open>add_task\<close>: \<open>"id": len(tasks) + 1\<close>.\<close>

definition new_task :: "datetime \<Rightarrow> task list \<Rightarrow> string \<Rightarrow> string \<Rightarrow> string option \<Rightarrow> task" where
  "new_task now ts desc cat due =
     \<lparr>task_id = int (length ts) + 1, description = desc, category = cat, completed = False,
      created_at = strftime_ymd_hms now, due_date = due\<rparr>"

definition add_task :: "datetime \<Rightarrow> string \<Rightarrow> string \<Rightarrow> string option \<Rightarrow> store \<Rightarrow> store" where
  "add_task now desc cat due s =
     commit (tasks s @ [new_task now (tasks s) desc cat due]) [TaskAddedMsg desc cat due] s"

abbreviation has_id :: "int \<Rightarrow> task \<Rightarrow> bool" where
  "has_id tid t \<equiv> task_id t = tid"

definition mark_complete :: "int \<Rightarrow> store \<Rightarrow> store" where
  "mark_complete tid s =
     (case find_idx (has_id tid) (tasks s) of
        None \<Rightarrow> emit (NotFoundMsg tid) s
      | Some i \<Rightarrow> commit ((tasks s)[i := (tasks s ! i)\<lparr>completed := True\<rparr>]) [MarkedMsg tid] s)"

definition delete_task :: "int \<Rightarrow> store \<Rightarrow> store" where
  "delete_task tid s =
     (case find_idx (has_id tid) (tasks s) of
        None \<Rightarrow> emit (NotFoundMsg tid) s
      | Some i \<Rightarrow>
          (case py_pop i (tasks s) of
             None \<Rightarrow> emit (DeleteErrorMsg ''pop index out of range'') s
           | Some (deleted, ts') \<Rightarrow> commit ts' [DeletedMsg tid (description deleted)] s))"

declare new_task_def [model_defs] add_task_def [model_defs] mark_complete_def [model_defs]
  delete_task_def [model_defs]

section \<open>display_tasks\<close>

text \<open>The \<open>due_status\<close> of a row (lines 95--100): empty when \<open>task["due_date"]\<close> is
  \<open>None\<close> or empty, \<open>None\<close> when \<open>strptime\<close> raises on it.\<close>

definition due_status :: "date \<Rightarrow> task \<Rightarrow> string option" where
  "due_status today t =
     (case due_date t of
        None \<Rightarrow> Some []
      | Some s \<Rightarrow>
          if \<not> py_truthy s then Some []
          else (case strptime_ymd s of
                  None \<Rightarrow> None
                | Some dd \<Rightarrow>
                    Some ('' | Due: '' @ s
                          @ (if \<not> completed t \<and> date_less dd today then '' (Overdue)'' else []))))"

definition task_row :: "task \<Rightarrow> string \<Rightarrow> msg" where
  "task_row t ds = RowMsg (completed t) (task_id t) (description t) (category t) ds (created_at t)"

fun display_loop :: "date \<Rightarrow> bool \<Rightarrow> task list \<Rightarrow> msg list \<times> py_exc option" where
  "display_loop today incomplete_only [] = ([], None)"
| "display_loop today incomplete_only (t # ts) =
     (if incomplete_only \<and> completed t then display_loop today incomplete_only ts
      else (case due_status today t of
              None \<Rightarrow> ([], Some ValueError)
            | Some ds \<Rightarrow> (let (ms, e) = display_loop today incomplete_only ts in (task_row t ds # ms, e))))"

definition display_tasks :: "date \<Rightarrow> bool \<Rightarrow> task list \<Rightarrow> msg list \<times> py_exc option" where
  "display_tasks today incomplete_only ts =
     (if ts = [] then ([NoTasksMsg], None) else display_loop today incomplete_only ts)"

declare due_status_def [model_defs] task_row_def [model_defs] display_tasks_def [model_defs]

section \<open>Runs of store operations\<close>

text \<open>The three mutating calls \<open>main\<close> makes (lines 138, 145, 152) as one datatype of
  operations, so that properties can range over arbitrary runs.\<close>

datatype store_op = AddOp datetime string string "string option" | CompleteOp int | DeleteOp int

fun store_step :: "store \<Rightarrow> store_op \<Rightarrow> store" where
  "store_step s (AddOp now d c due) = add_task now d c due s"
| "store_step s (CompleteOp tid) = mark_complete tid s"
| "store_step s (DeleteOp tid) = delete_task tid s"

fun store_run :: "store \<Rightarrow> store_op list \<Rightarrow> store" where
  "store_run s [] = s"
| "store_run s (op # ops) = store_run (store_step s op) ops"

definition task_le :: "task \<Rightarrow> task \<Rightarrow> bool" where
  "task_le t t' \<longleftrightarrow> t' = t \<or> t' = t\<lparr>completed := True\<rparr>"

text \<open>\<open>evolves n ts ts'\<close>: all tasks of \<open>ts'\<close> but the last \<open>n\<close> come, in their
  order, from \<open>ts\<close>, each unchanged or with \<open>completed\<close> set.\<close>

definition evolves :: "nat \<Rightarrow> task list \<Rightarrow> task list \<Rightarrow> bool" where
  "evolves n ts ts' \<longleftrightarrow> list_emb (\<lambda>t' t. task_le t t') (take (length ts' - n) ts') ts"

definition ids_consecutive :: "task list \<Rightarrow> bool" where
  "ids_consecutive ts \<longleftrightarrow> map task_id ts = map int [1..<Suc (length ts)]"

fun is_delete :: "store_op \<Rightarrow> bool" where
  "is_delete (DeleteOp _) = True"
| "is_delete _ = False"

fun is_add :: "store_op \<Rightarrow> bool" where
  "is_add (AddOp _ _ _ _) = True"
| "is_add _ = False"

text \<open>A stored due date \<open>display_tasks\<close> can show: absent, empty, or one
  \<open>strptime\<close> parses.\<close>

definition due_str_ok :: "string option \<Rightarrow> bool" where
  "due_str_ok so \<longleftrightarrow> (case so of None \<Rightarrow> True | Some s \<Rightarrow> s = [] \<or> strptime_ymd s \<noteq> None)"

definition due_ok :: "task \<Rightarrow> bool" where
  "due_ok t \<longleftrightarrow> due_str_ok (due_date t)"

section \<open>Lemmas\<close>

lemma commit_tasks [simp]: "tasks (commit ts ms s) = ts"
  by (simp add: commit_def save_tasks_def split: option.splits)

lemma commit_saved:
  "write_error (disk s) = None \<Longrightarrow>
     disk (commit ts ms s) = (disk s)\<lparr>content := Some (json_dumps (json_of_tasks ts))\<rparr>
     \<and> out (commit ts ms s) = out s @ ms"
  by (simp add: commit_def save_tasks_def)

lemma commit_not_saved:
  "write_error (disk s) = Some e \<Longrightarrow>
     disk (commit ts ms s) = disk s \<and> out (commit ts ms s) = out s @ SaveErrorMsg e # ms"
  by (simp add: commit_def save_tasks_def)

lemma mark_complete_first:
  assumes "tasks s = ys @ t # zs" "task_id t = tid" "\<forall>y \<in> set ys. task_id y \<noteq> tid"
  shows "mark_complete tid s = commit (ys @ t\<lparr>completed := True\<rparr> # zs) [MarkedMsg tid] s"
  using assms by (simp add: mark_complete_def find_idx_append_Cons list_update_append)

text \<open>C2: \<open>mark_complete\<close> with an id no task has changes neither the list nor
  the file and only prints the not-found message.\<close>

theorem mark_complete_not_found:
  assumes "\<forall>t \<in> set (tasks s). task_id t \<noteq> tid"
  shows "mark_complete tid s = s\<lparr>out := out s @ [NotFoundMsg tid]\<rparr>"
  using assms by (simp add: mark_complete_def emit_def find_idx_None_iff [THEN iffD2])

lemma delete_task_first:
  assumes "tasks s = ys @ t # zs" "task_id t = tid" "\<forall>y \<in> set ys. task_id y \<noteq> tid"
  shows "delete_task tid s = commit (ys @ zs) [DeletedMsg tid (description t)] s"
  using assms by (simp add: delete_task_def find_idx_append_Cons py_pop_def nth_append)

text \<open>C4: \<open>delete_task\<close> with an id no task has changes neither the list nor the
  file (no save) and only prints the not-found message.\<close>

theorem delete_task_not_found:
  assumes "\<forall>t \<in> set (tasks s). task_id t \<noteq> tid"
  shows "delete_task tid s = s\<lparr>out := out s @ [NotFoundMsg tid]\<rparr>"
  using assms by (simp add: delete_task_def emit_def find_idx_None_iff [THEN iffD2])


text \<open>C1: when the first task with the id is \<open>t\<close>, \<open>mark_complete\<close> sets its
  \<open>completed\<close> flag and nothing else, leaves every other task as it was, rewrites
  the file with the whole new list, and prints the confirmation.\<close>

theorem mark_complete_marks_first:
  assumes "tasks s = ys @ t # zs" "task_id t = tid" "\<forall>y \<in> set ys. task_id y \<noteq> tid"
    and "write_error (disk s) = None"
  shows "tasks (mark_complete tid s) = ys @ t\<lparr>completed := True\<rparr> # zs
         \<and> content (disk (mark_complete tid s))
             = Some (json_dumps (json_of_tasks (ys @ t\<lparr>completed := True\<rparr> # zs)))
         \<and> out (mark_complete tid s) = out s @ [MarkedMsg tid]"
  using mark_complete_first [OF assms(1-3)] commit_saved [OF assms(4)] by simp

text \<open>C3: when the first task with the id is \<open>t\<close>, \<open>delete_task\<close> removes exactly
  that task, keeps the order of the others, rewrites the file and reports the
  description of the removed task.\<close>

theorem delete_task_removes_first:
  assumes "tasks s = ys @ t # zs" "task_id t = tid" "\<forall>y \<in> set ys. task_id y \<noteq> tid"
    and "write_error (disk s) = None"
  shows "tasks (delete_task tid s) = ys @ zs
         \<and> content (disk (delete_task tid s)) = Some (json_dumps (json_of_tasks (ys @ zs)))
         \<and> out (delete_task tid s) = out s @ [DeletedMsg tid (description t)]"
  using delete_task_first [OF assms(1-3)] commit_saved [OF assms(4)] by simp

lemma task_le_refl [simp]: "task_le t t"
  by (simp add: task_le_def)

lemma task_le_trans: "task_le a b \<Longrightarrow> task_le b c \<Longrightarrow> task_le a c"
  by (auto simp: task_le_def)

lemma emb_refl: "list_emb (\<lambda>t' t. task_le t t') ts ts"
  by (rule list_emb_refl) simp

lemma evolves_iff:
  "evolves n ts ts' \<longleftrightarrow>
   (\<exists>kept added. ts' = kept @ added \<and> length added \<le> n \<and> list_emb (\<lambda>t' t. task_le t t') kept ts)"
proof
  assume "evolves n ts ts'"
  then show "\<exists>kept added. ts' = kept @ added \<and> length added \<le> n \<and> list_emb (\<lambda>t' t. task_le t t') kept ts"
    unfolding evolves_def
    by (intro exI [of _ "take (length ts' - n) ts'"] exI [of _ "drop (length ts' - n) ts'"]) simp
next
  assume "\<exists>kept added. ts' = kept @ added \<and> length added \<le> n \<and> list_emb (\<lambda>t' t. task_le t t') kept ts"
  then obtain kept added where e: "ts' = kept @ added" "length added \<le> n"
    and emb: "list_emb (\<lambda>t' t. task_le t t') kept ts" by blast
  define j where "j = length ts' - n"
  from e have tk: "take j ts' = take j kept" by (simp add: j_def)
  from emb have "list_emb (\<lambda>t' t. task_le t t') (take j kept @ drop j kept) ts" by simp
  then obtain us vs where "ts = us @ vs" "list_emb (\<lambda>t' t. task_le t t') (take j kept) us"
    by (blast dest: list_emb_appendD)
  then have "list_emb (\<lambda>t' t. task_le t t') (take j kept) ts" by (simp add: list_emb_prefix)
  with tk show "evolves n ts ts'" by (simp add: evolves_def j_def)
qed

lemma emb_trans:
  "list_emb (\<lambda>t' t. task_le t t') a b \<Longrightarrow> list_emb (\<lambda>t' t. task_le t t') b c \<Longrightarrow>
   list_emb (\<lambda>t' t. task_le t t') a c"
  by (rule list_emb_trans [rotated]) (auto intro: task_le_trans)

lemma split_kept_added:
  assumes "kept @ added = ys @ x # zs"
  shows "(\<exists>k2. kept = ys @ x # k2 \<and> zs = k2 @ added) \<or> (\<exists>a1. ys = kept @ a1 \<and> added = a1 @ x # zs)"
proof -
  from assms obtain us where "kept = ys @ us \<and> us @ added = x # zs \<or> kept @ us = ys \<and> added = us @ x # zs"
    by (auto simp: append_eq_append_conv2)
  then show ?thesis by (cases us) auto
qed

text \<open>What each kind of step does to the relation: an element of the list replaced by
  one its predecessor embeds in, an element removed, a task appended.\<close>

lemma evolves_replace:
  assumes "evolves n ts (ys @ x # zs)" "list_emb (\<lambda>t' t. task_le t t') [x'] [x]"
  shows "evolves n ts (ys @ x' # zs)"
proof -
  from assms(1) obtain kept added where e: "ys @ x # zs = kept @ added" "length added \<le> n"
    and emb: "list_emb (\<lambda>t' t. task_le t t') kept ts" by (auto simp: evolves_iff)
  from e(1) [symmetric] show ?thesis
  proof (rule split_kept_added [THEN disjE])
    assume "\<exists>k2. kept = ys @ x # k2 \<and> zs = k2 @ added"
    then obtain k2 where k: "kept = ys @ x # k2" "zs = k2 @ added" by blast
    have "list_emb (\<lambda>t' t. task_le t t') (ys @ [x'] @ k2) (ys @ [x] @ k2)"
      by (intro list_emb_append_mono emb_refl assms(2))
    with emb k have "list_emb (\<lambda>t' t. task_le t t') (ys @ x' # k2) ts" by (auto intro: emb_trans)
    with k e(2) show ?thesis unfolding evolves_iff by (intro exI [of _ "ys @ x' # k2"] exI [of _ added]) simp
  next
    assume "\<exists>a1. ys = kept @ a1 \<and> added = a1 @ x # zs"
    then obtain a1 where "ys = kept @ a1" "added = a1 @ x # zs" by blast
    with e(2) emb show ?thesis unfolding evolves_iff by (intro exI [of _ kept] exI [of _ "a1 @ x' # zs"]) simp
  qed
qed

lemma evolves_remove:
  assumes "evolves n ts (ys @ x # zs)"
  shows "evolves n ts (ys @ zs)"
proof -
  from assms obtain kept added where e: "ys @ x # zs = kept @ added" "length added \<le> n"
    and emb: "list_emb (\<lambda>t' t. task_le t t') kept ts" by (auto simp: evolves_iff)
  from e(1) [symmetric] show ?thesis
  proof (rule split_kept_added [THEN disjE])
    assume "\<exists>k2. kept = ys @ x # k2 \<and> zs = k2 @ added"
    then obtain k2 where k: "kept = ys @ x # k2" "zs = k2 @ added" by blast
    have "list_emb (\<lambda>t' t. task_le t t') (ys @ k2) (ys @ x # k2)"
      by (intro list_emb_append_mono emb_refl list_emb_Cons)
    with emb k have "list_emb (\<lambda>t' t. task_le t t') (ys @ k2) ts" by (auto intro: emb_trans)
    with k e(2) show ?thesis unfolding evolves_iff by (intro exI [of _ "ys @ k2"] exI [of _ added]) simp
  next
    assume "\<exists>a1. ys = kept @ a1 \<and> added = a1 @ x # zs"
    then obtain a1 where "ys = kept @ a1" "added = a1 @ x # zs" by blast
    with e(2) emb show ?thesis unfolding evolves_iff by (intro exI [of _ kept] exI [of _ "a1 @ zs"]) simp
  qed
qed

lemma evolves_append: "evolves n ts ts' \<Longrightarrow> evolves (Suc n) ts (ts' @ [t])"
  by (simp add: evolves_def)

lemma mark_complete_evolves: "evolves n ts (tasks s) \<Longrightarrow> evolves n ts (tasks (mark_complete tid s))"
proof (cases "find_idx (has_id tid) (tasks s)")
  case None
  then show "evolves n ts (tasks s) \<Longrightarrow> ?thesis" by (simp add: mark_complete_def emit_def)
next
  case (Some i)
  then obtain ys x zs where "tasks s = ys @ x # zs" "length ys = i"
    by (rule find_idx_SomeE)
  moreover have "list_emb (\<lambda>t' t. task_le t t') [x\<lparr>completed := True\<rparr>] [x]" by (simp add: task_le_def)
  ultimately show "evolves n ts (tasks s) \<Longrightarrow> ?thesis" using Some
    by (simp add: mark_complete_def list_update_append nth_append evolves_replace)
qed

lemma delete_task_evolves: "evolves n ts (tasks s) \<Longrightarrow> evolves n ts (tasks (delete_task tid s))"
proof (cases "find_idx (has_id tid) (tasks s)")
  case None
  then show "evolves n ts (tasks s) \<Longrightarrow> ?thesis" by (simp add: delete_task_def emit_def)
next
  case (Some i)
  then obtain ys x zs where "tasks s = ys @ x # zs" "length ys = i"
    by (rule find_idx_SomeE)
  with Some show "evolves n ts (tasks s) \<Longrightarrow> ?thesis"
    by (simp add: delete_task_def py_pop_def nth_append evolves_remove)
qed

lemma store_step_evolves:
  "evolves n ts (tasks s) \<Longrightarrow> evolves (if is_add op then Suc n else n) ts (tasks (store_step s op))"
  by (cases op) (simp_all add: add_task_def evolves_append mark_complete_evolves delete_task_evolves)

text \<open>C8: along any run of \<open>add_task\<close>, \<open>mark_complete\<close> and \<open>delete_task\<close>,
  a task is never turned back to incomplete: all tasks of the final list but the last
  \<open>k\<close>, \<open>k\<close> the number of \<open>add_task\<close> calls, are tasks of the initial list in
  their original order, each unchanged or marked complete.\<close>

theorem store_run_completion_monotone:
  "evolves (length (filter is_add ops)) (tasks s) (tasks (store_run s ops))"
proof -
  have "evolves n ts (tasks s) \<Longrightarrow> evolves (n + length (filter is_add ops)) ts (tasks (store_run s ops))"
    for n ts
  proof (induction ops arbitrary: n s)
    case Nil
    then show ?case by simp
  next
    case (Cons op ops)
    from store_step_evolves [OF Cons.prems, of op]
    have "evolves (n + length (filter is_add [op])) ts (tasks (store_step s op))"
      by (cases "is_add op") simp_all
    from Cons.IH [OF this] show ?case by (cases "is_add op") simp_all
  qed
  moreover have "evolves 0 (tasks s) (tasks s)" by (simp add: evolves_def emb_refl)
  ultimately show ?thesis by fastforce
qed

lemma mark_complete_ids [simp]: "map task_id (tasks (mark_complete tid s)) = map task_id (tasks s)"
proof (cases "find_idx (has_id tid) (tasks s)")
  case None
  then show ?thesis by (simp add: mark_complete_def emit_def)
next
  case (Some i)
  then have "i < length (tasks s)" by (auto dest: find_idx_Some)
  with Some show ?thesis by (auto simp: mark_complete_def list_eq_iff_nth_eq nth_list_update)
qed

lemma store_step_ids_consecutive:
  "ids_consecutive (tasks (store_step s op))" if "ids_consecutive (tasks s)" "\<not> is_delete op"
proof (cases op)
  case (CompleteOp tid)
  have "length (tasks (mark_complete tid s)) = length (tasks s)"
    by (metis length_map mark_complete_ids)
  with CompleteOp show ?thesis using that(1) by (simp add: ids_consecutive_def)
qed (use that in \<open>simp_all add: ids_consecutive_def add_task_def new_task_def\<close>)

lemma store_run_ids_consecutive:
  "ids_consecutive (tasks s) \<Longrightarrow> \<forall>op \<in> set ops. \<not> is_delete op \<Longrightarrow> ids_consecutive (tasks (store_run s ops))"
  by (induction ops arbitrary: s) (simp_all add: store_step_ids_consecutive)

text \<open>C7: as long as no task is deleted, ids stay \<open>1, 2, ..., n\<close> and hence unique:
  \<open>len(tasks) + 1\<close> is a fresh id on such lists.\<close>

theorem ids_unique_without_delete:
  assumes "ids_consecutive (tasks s)" "\<forall>op \<in> set ops. \<not> is_delete op"
  shows "distinct (map task_id (tasks (store_run s ops)))"
proof -
  have "ids_consecutive (tasks (store_run s ops))"
    using assms by (rule store_run_ids_consecutive)
  then show ?thesis by (simp add: ids_consecutive_def distinct_map inj_on_def)
qed

text \<open>C9: marking a task that is already complete leaves the list unchanged and
  still reports success.\<close>

theorem mark_complete_idempotent:
  assumes "tasks s = ys @ t # zs" "task_id t = tid" "\<forall>y \<in> set ys. task_id y \<noteq> tid" "completed t"
  shows "tasks (mark_complete tid s) = tasks s \<and> last (out (mark_complete tid s)) = MarkedMsg tid"
proof -
  have "t\<lparr>completed := True\<rparr> = t" using assms(4) by (cases t) simp
  with mark_complete_first [OF assms(1-3)] assms(1) show ?thesis
    by (simp add: commit_def save_tasks_def split: option.splits)
qed

text \<open>C5: \<open>add_task\<close> appends one incomplete task with id \<open>len(tasks) + 1\<close>, the
  given description, category and due date and the creation time \<open>now\<close>; it
  prints the confirmation last and, when the file can be written, the file holds the
  new list.\<close>

theorem add_task_appends:
  "\<exists>t. tasks (add_task now desc cat due s) = tasks s @ [t]
      \<and> task_id t = int (length (tasks s)) + 1 \<and> description t = desc \<and> category t = cat
      \<and> \<not> completed t \<and> created_at t = strftime_ymd_hms now \<and> due_date t = due
      \<and> last (out (add_task now desc cat due s)) = TaskAddedMsg desc cat due
      \<and> (write_error (disk s) = None \<longrightarrow>
           content (disk (add_task now desc cat due s)) = Some (json_dumps (json_of_tasks (tasks s @ [t]))))"
  by (simp add: add_task_def new_task_def commit_def save_tasks_def split: option.splits)

lemma store_step_tasks_independent:
  "tasks (store_step s op) = tasks (store_step (s\<lparr>disk := d\<rparr>) op)"
  by (cases op) (simp_all add: add_task_def mark_complete_def delete_task_def emit_def
      split: option.splits prod.splits)

text \<open>C10: when the file cannot be written, every operation leaves the file as it
  was, and the in-memory list is the one the operation computes whatever the state
  of the disk.\<close>

theorem save_failure_keeps_memory:
  assumes "write_error (disk s) = Some e"
  shows "disk (store_step s op) = disk s \<and> tasks (store_step s op) = tasks (store_step (s\<lparr>disk := d\<rparr>) op)"
proof -
  have "disk (store_step s op) = disk s"
    using assms by (cases op) (simp_all add: add_task_def mark_complete_def delete_task_def emit_def
        commit_not_saved split: option.splits prod.splits)
  then show ?thesis using store_step_tasks_independent by blast
qed


text \<open>C15: a row is annotated \<open>(Overdue)\<close> exactly when the task is incomplete and
  has a due date strictly before today.\<close>

theorem due_status_overdue_iff:
  assumes "due_status today t = Some ds"
  shows "suffix '' (Overdue)'' ds \<longleftrightarrow>
           \<not> completed t \<and> (\<exists>s dd. due_date t = Some s \<and> strptime_ymd s = Some dd \<and> date_less dd today)"
proof (cases "due_date t")
  case None
  with assms show ?thesis by (simp add: due_status_def)
next
  case (Some s)
  show ?thesis
  proof (cases "strptime_ymd s")
    case None
    with assms Some show ?thesis by (auto simp: due_status_def split: if_splits)
  next
    case (Some dd)
    with \<open>due_date t = Some s\<close> assms have ds:
      "ds = '' | Due: '' @ s @ (if \<not> completed t \<and> date_less dd today then '' (Overdue)'' else [])"
      using strptime_last_digit [of s dd] by (simp add: due_status_def)
    have "\<not> suffix '' (Overdue)'' ('' | Due: '' @ s)"
    proof
      assume "suffix '' (Overdue)'' ('' | Due: '' @ s)"
      then obtain zs where "'' | Due: '' @ s = zs @ '' (Overdue)''" by (auto simp: suffix_def)
      then have "last ('' | Due: '' @ s) = last (zs @ '' (Overdue)'')" by (rule arg_cong)
      then have "last ('' | Due: '' @ s) = CHR '')''" by (simp only: last_appendR) simp
      moreover have "is_digit (last s)" "s \<noteq> []" using strptime_last_digit [OF Some] by auto
      ultimately show False by (simp add: is_digit_def)
    qed
    have "suffix '' (Overdue)'' ('' | Due: '' @ s @ '' (Overdue)'')"
      unfolding suffix_def by (rule exI [where x = "'' | Due: '' @ s"]) simp
    show ?thesis
    proof (cases "\<not> completed t \<and> date_less dd today")
      case True
      with ds \<open>suffix '' (Overdue)'' ('' | Due: '' @ s @ '' (Overdue)'')\<close> Some \<open>due_date t = Some s\<close>
      show ?thesis by simp
    next
      case False
      with ds \<open>\<not> suffix '' (Overdue)'' ('' | Due: '' @ s)\<close> Some \<open>due_date t = Some s\<close>
      show ?thesis by auto
    qed
  qed
qed

lemma due_status_ok: "due_ok t \<Longrightarrow> \<exists>ds. due_status today t = Some ds"
  by (auto simp: due_ok_def due_str_ok_def due_status_def split: option.splits)

lemma display_loop_ok:
  "\<forall>t \<in> set ts. due_ok t \<Longrightarrow>
     display_loop today b ts =
       (map (\<lambda>t. task_row t (the (due_status today t))) (filter (\<lambda>t. \<not> (b \<and> completed t)) ts), None)"
proof (induction ts)
  case Nil
  then show ?case by simp
next
  case (Cons t ts)
  from Cons.prems have IH: "display_loop today b ts =
       (map (\<lambda>t. task_row t (the (due_status today t))) (filter (\<lambda>t. \<not> (b \<and> completed t)) ts), None)"
    by (intro Cons.IH) simp
  from Cons.prems obtain ds where ds: "due_status today t = Some ds" using due_status_ok by force
  show ?case by (simp only: display_loop.simps IH ds) (simp add: ds)
qed

lemma display_tasks_no_exc: "\<forall>t \<in> set ts. due_ok t \<Longrightarrow> snd (display_tasks today b ts) = None"
  by (simp add: display_tasks_def display_loop_ok)

text \<open>C16: when every stored due date is empty or parses, \<open>display_tasks\<close> does not
  raise, prints "No tasks found." for an empty list, and otherwise prints one row per
  task in list order, skipping completed tasks in the incomplete-only view.\<close>

theorem display_tasks_rows:
  assumes "\<forall>t \<in> set ts. due_ok t"
  shows "display_tasks today b ts =
           (if ts = [] then [NoTasksMsg]
            else map (\<lambda>t. task_row t (the (due_status today t))) (filter (\<lambda>t. \<not> (b \<and> completed t)) ts),
            None)"
  using assms by (simp only: display_tasks_def display_loop_ok split: if_split) simp

lemma display_loop_all_done: "\<forall>t \<in> set ts. completed t \<Longrightarrow> display_loop today True ts = ([], None)"
  by (induction ts) simp_all

text \<open>C17: in the incomplete-only view of a non-empty list whose tasks are all
  complete, \<open>display_tasks\<close> prints nothing at all, not "No tasks found.".\<close>

theorem display_incomplete_silent_when_all_done:
  assumes "ts \<noteq> []" "\<forall>t \<in> set ts. completed t"
  shows "display_tasks today True ts = ([], None)"
  using assms by (simp add: display_tasks_def display_loop_all_done)

text \<open>C6: ids are \<open>len(tasks) + 1\<close>, so once a task has been deleted the next task
  added can receive an id still in use: when the list holds a task \<open>t\<close> whose id is
  the length of the list (in a list numbered 1..n, the last one) and another task
  \<open>u\<close> is deleted, the task added next gets the id of \<open>t\<close>, which is still
  there.\<close>

theorem ids_collide_after_delete:
  assumes "t \<in> set (tasks s)" "task_id t = int (length (tasks s))"
    and "u \<in> set (tasks s)" "task_id u \<noteq> task_id t"
  shows "\<not> distinct (map task_id (tasks (add_task now d c due (delete_task (task_id u) s))))"
proof -
  from assms(3) have "find_idx (has_id (task_id u)) (tasks s) \<noteq> None"
    by (auto simp: find_idx_None_iff)
  then obtain i where "find_idx (has_id (task_id u)) (tasks s) = Some i" by blast
  then obtain ys x zs where split: "tasks s = ys @ x # zs" "task_id x = task_id u"
    "\<forall>y \<in> set ys. task_id y \<noteq> task_id u"
    by (rule find_idx_SomeE)
  then have del: "tasks (delete_task (task_id u) s) = ys @ zs" by (simp add: delete_task_first)
  from assms(1,4) split have "t \<in> set (ys @ zs)" by auto
  then have mem: "task_id t \<in> set (map task_id (ys @ zs))" unfolding set_map by (rule imageI)
  have "task_id (new_task now (ys @ zs) d c due) = task_id t"
    using assms(2) split(1) by (simp add: new_task_def)
  then have "map task_id (tasks (add_task now d c due (delete_task (task_id u) s)))
             = map task_id (ys @ zs) @ [task_id t]"
    using del by (simp add: add_task_def)
  with mem show ?thesis by (simp only: distinct_append) auto
qed

end
