(* ===== verification/Json_Decode.thy ===== *)
theory Json_Decode
  imports Json
begin

text \<open>
  Python's \<open>json.load\<close> as \<open>load_tasks\<close> (\<open>src/todo_app.py\<close>, line 14) calls it,
  modelled from the documented behaviour of the standard library's decoder
  (\<open>json.decoder\<close>, \<open>json.scanner\<close>): white space is \<open>' \t\n\r'\<close>; a value is
  recognised by its first character in the order of \<open>py_scanner\<close> (string, object,
  array, \<open>null\<close>, \<open>true\<close>, \<open>false\<close>, number, \<open>NaN\<close>, \<open>Infinity\<close>,
  \<open>-Infinity\<close>); strings are strict (a raw control character is an error) and
  \<open>\uXXXX\<close> escapes are read as code points; an object becomes a \<open>dict\<close>, so a
  repeated key keeps its first position and its last value (\<open>dict_of_pairs\<close>); after
  the value only white space may follow (\<open>Extra data\<close>).

  The decoder is recursive descent with a fuel argument: \<open>PFuel\<close> is "ran out of
  fuel", distinct from the decoding error \<open>PErr\<close>, and \<open>json_loads\<close> starts with
  \<open>2 n + 1\<close> units for an input of length \<open>n\<close>, which is enough: a value consumes
  input, and only the step from an array or object to its next element spends fuel
  without consuming a character first (see the theorems of this theory). Characters are code points 0..255, so a
  \<open>\u\<close> escape above 0xFF is outside the model and read as an error.
\<close>

datatype 'a pres = PErr | PFuel | POk 'a string

section \<open>Lexical parts\<close>

definition is_json_ws :: "char \<Rightarrow> bool" where
  "is_json_ws c \<longleftrightarrow> c = CHR 0x20 \<or> c = CHR 0x09 \<or> c = CHR 0x0A \<or> c = CHR 0x0D"

fun skip_ws :: "string \<Rightarrow> string" where
  "skip_ws [] = []"
| "skip_ws (c # s) = (if is_json_ws c then skip_ws s else c # s)"

text \<open>The input without the literal \<open>p\<close> in front, if it starts with it.\<close>

definition strip_lit :: "string \<Rightarrow> string \<Rightarrow> string option" where
  "strip_lit p s = (if take (length p) s = p then Some (drop (length p) s) else None)"

definition starts :: "char \<Rightarrow> string \<Rightarrow> bool" where
  "starts c s \<longleftrightarrow> s \<noteq> [] \<and> hd s = c"

definition hex_val :: "char \<Rightarrow> nat option" where
  "hex_val c =
     (let n = (of_char c :: nat) in
      if 48 \<le> n \<and> n \<le> 57 then Some (n - 48)
      else if 97 \<le> n \<and> n \<le> 102 then Some (n - 87)
      else if 65 \<le> n \<and> n \<le> 70 then Some (n - 55)
      else None)"

text \<open>The four hexadecimal digits of a \<open>\u\<close> escape.\<close>

definition hex4 :: "string \<Rightarrow> nat option" where
  "hex4 s =
     (if length s < 4 \<or> None \<in> set (map hex_val (take 4 s)) then None
      else Some (foldl (\<lambda>n c. 16 * n + the (hex_val c)) 0 (take 4 s)))"

text \<open>The one-letter escapes of \<open>BACKSLASH\<close> in \<open>json.decoder\<close>.\<close>

definition short_escape :: "char \<Rightarrow> char option" where
  "short_escape e =
     (if e = CHR 0x22 then Some (CHR 0x22)
      else if e = bsl then Some bsl
      else if e = CHR ''/'' then Some (CHR ''/'')
      else if e = CHR ''b'' then Some (CHR 0x08)
      else if e = CHR ''f'' then Some (CHR 0x0C)
      else if e = CHR ''n'' then Some (CHR 0x0A)
      else if e = CHR ''r'' then Some (CHR 0x0D)
      else if e = CHR ''t'' then Some (CHR 0x09)
      else None)"

text \<open>\<open>scanstring\<close> with \<open>strict=True\<close>: the characters of a string literal after its
  opening quote, up to and without the closing quote; \<open>acc\<close> holds the characters
  read so far, last first.\<close>

function parse_chars :: "string \<Rightarrow> string \<Rightarrow> (string \<times> string) option" where
  "parse_chars acc [] = None"
| "parse_chars acc (c # r) =
     (if c = CHR 0x22 then Some (rev acc, r)
      else if c = bsl then
        (case r of
           [] \<Rightarrow> None
         | e # r' \<Rightarrow>
             if e = CHR ''u'' then
               (case hex4 r' of
                  None \<Rightarrow> None
                | Some n \<Rightarrow> if n < 256 then parse_chars (char_of n # acc) (drop 4 r') else None)
             else (case short_escape e of
                     None \<Rightarrow> None
                   | Some c' \<Rightarrow> parse_chars (c' # acc) r'))
      else if (of_char c :: nat) < 32 then None
      else parse_chars (c # acc) r)"
  by pat_completeness auto
termination
  by (relation "measure (\<lambda>(acc, s). length s)") auto

section \<open>Numbers\<close>

text \<open>\<open>NUMBER_RE = (-?(?:0|[1-9]\d*))(\.\d+)?([eE][-+]?\d+)?\<close>: the integer part.\<close>

definition int_part :: "string \<Rightarrow> (string \<times> string) option" where
  "int_part s =
     (if s = [] then None
      else if hd s = CHR ''0'' then Some (''0'', tl s)
      else if is_digit (hd s) then Some (takeWhile is_digit s, dropWhile is_digit s)
      else None)"

text \<open>The optional fraction \<open>\.\d+\<close>: empty when it does not match.\<close>

definition frac_part :: "string \<Rightarrow> string \<times> string" where
  "frac_part s =
     (if starts (CHR ''.'') s \<and> takeWhile is_digit (tl s) \<noteq> []
      then (CHR ''.'' # takeWhile is_digit (tl s), dropWhile is_digit (tl s))
      else ([], s))"

text \<open>The optional exponent \<open>[eE][-+]?\d+\<close>: empty when it does not match.\<close>

definition exp_part :: "string \<Rightarrow> string \<times> string" where
  "exp_part s =
     (if s \<noteq> [] \<and> (hd s = CHR ''e'' \<or> hd s = CHR ''E'') then
        (let sg = (if starts (CHR ''-'') (tl s) \<or> starts (CHR ''+'') (tl s) then [hd (tl s)] else []);
             r = drop (length sg) (tl s)
         in if takeWhile is_digit r \<noteq> [] then (hd s # sg @ takeWhile is_digit r, dropWhile is_digit r)
            else ([], s))
      else ([], s))"

text \<open>\<open>match_number\<close>: an \<open>int\<close> when there is neither fraction nor exponent,
  otherwise a float, kept as its lexeme.\<close>

definition parse_number :: "string \<Rightarrow> (json \<times> string) option" where
  "parse_number s =
     (let neg = starts (CHR ''-'') s; s1 = (if neg then tl s else s) in
      case int_part s1 of
        None \<Rightarrow> None
      | Some (ip, r1) \<Rightarrow>
          (let (fr, r2) = frac_part r1; (ex, r3) = exp_part r2 in
           if fr = [] \<and> ex = []
           then Some (JInt ((if neg then -1 else 1) * int (digits_value ip)), r3)
           else Some (JFloat ((if neg then ''-'' else []) @ ip @ fr @ ex), r3)))"

section \<open>Objects as dictionaries\<close>

text \<open>\<open>d[k] = v\<close> on an insertion-ordered dictionary.\<close>

fun dict_set :: "string \<Rightarrow> json \<Rightarrow> (string \<times> json) list \<Rightarrow> (string \<times> json) list" where
  "dict_set k v [] = [(k, v)]"
| "dict_set k v ((k', v') # kvs) = (if k = k' then (k, v) # kvs else (k', v') # dict_set k v kvs)"

text \<open>\<open>dict(pairs)\<close>.\<close>

definition dict_of_pairs :: "(string \<times> json) list \<Rightarrow> (string \<times> json) list" where
  "dict_of_pairs kvs = foldl (\<lambda>d (k, v). dict_set k v d) [] kvs"

section \<open>Values\<close>

fun parse_value :: "nat \<Rightarrow> string \<Rightarrow> json pres"
and parse_elems :: "nat \<Rightarrow> json list \<Rightarrow> string \<Rightarrow> json list pres"
and parse_members :: "nat \<Rightarrow> (string \<times> json) list \<Rightarrow> string \<Rightarrow> (string \<times> json) list pres" where
  "parse_value 0 s = PFuel"
| "parse_value (Suc f) s =
     (if starts (CHR 0x22) s then
        (case parse_chars [] (tl s) of None \<Rightarrow> PErr | Some (str, r) \<Rightarrow> POk (JStr str) r)
      else if starts (CHR ''{'') s then
        (let r = skip_ws (tl s) in
         if starts (CHR ''}'') r then POk (JObj []) (tl r)
         else (case parse_members f [] r of
                 POk kvs r' \<Rightarrow> POk (JObj (dict_of_pairs kvs)) r'
               | PErr \<Rightarrow> PErr | PFuel \<Rightarrow> PFuel))
      else if starts (CHR ''['') s then
        (let r = skip_ws (tl s) in
         if starts (CHR '']'') r then POk (JArr []) (tl r)
         else (case parse_elems f [] r of
                 POk vs r' \<Rightarrow> POk (JArr vs) r'
               | PErr \<Rightarrow> PErr | PFuel \<Rightarrow> PFuel))
      else (case strip_lit ''null'' s of Some r \<Rightarrow> POk JNull r | None \<Rightarrow>
            case strip_lit ''true'' s of Some r \<Rightarrow> POk (JBool True) r | None \<Rightarrow>
            case strip_lit ''false'' s of Some r \<Rightarrow> POk (JBool False) r | None \<Rightarrow>
            case parse_number s of Some (v, r) \<Rightarrow> POk v r | None \<Rightarrow>
            case strip_lit ''NaN'' s of Some r \<Rightarrow> POk (JFloat ''NaN'') r | None \<Rightarrow>
            case strip_lit ''Infinity'' s of Some r \<Rightarrow> POk (JFloat ''Infinity'') r | None \<Rightarrow>
            case strip_lit ''-Infinity'' s of Some r \<Rightarrow> POk (JFloat ''-Infinity'') r | None \<Rightarrow> PErr))"
| "parse_elems 0 acc s = PFuel"
| "parse_elems (Suc f) acc s =
     (case parse_value f s of
        POk v r \<Rightarrow>
          (let r' = skip_ws r in
           if starts (CHR '']'') r' then POk (rev (v # acc)) (tl r')
           else if starts (CHR '','') r' then parse_elems f (v # acc) (skip_ws (tl r'))
           else PErr)
      | PErr \<Rightarrow> PErr
      | PFuel \<Rightarrow> PFuel)"
| "parse_members 0 acc s = PFuel"
| "parse_members (Suc f) acc s =
     (if \<not> starts (CHR 0x22) s then PErr
      else (case parse_chars [] (tl s) of
              None \<Rightarrow> PErr
            | Some (k, r1) \<Rightarrow>
                (let r2 = skip_ws r1 in
                 if \<not> starts (CHR '':'') r2 then PErr
                 else (case parse_value f (skip_ws (tl r2)) of
                         POk v r3 \<Rightarrow>
                           (let r4 = skip_ws r3 in
                            if starts (CHR ''}'') r4 then POk (rev ((k, v) # acc)) (tl r4)
                            else if starts (CHR '','') r4 then parse_members f ((k, v) # acc) (skip_ws (tl r4))
                            else PErr)
                       | PErr \<Rightarrow> PErr
                       | PFuel \<Rightarrow> PFuel))))"

text \<open>\<open>json.loads(s)\<close> (what \<open>json.load\<close> applies to the file's text): \<open>None\<close> is
  \<open>JSONDecodeError\<close>.\<close>

definition json_loads :: "string \<Rightarrow> json option" where
  "json_loads s =
     (let s1 = skip_ws s in
      case parse_value (Suc (2 * length s1)) s1 of
        POk v r \<Rightarrow> if skip_ws r = [] then Some v else None
      | _ \<Rightarrow> None)"

declare is_json_ws_def [model_defs] strip_lit_def [model_defs] starts_def [model_defs]
  hex_val_def [model_defs] hex4_def [model_defs] short_escape_def [model_defs]
  int_part_def [model_defs] frac_part_def [model_defs] exp_part_def [model_defs]
  parse_number_def [model_defs] dict_of_pairs_def [model_defs] json_loads_def [model_defs]

section \<open>Well-formed documents\<close>

text \<open>The documents the encoder and decoder agree on: no float lexemes (\<open>json_dumps\<close>
  writes what \<open>JFloat\<close> holds without checking that it is a number), and objects with
  distinct keys (a \<open>dict\<close> has no repeated key; \<open>dict_of_pairs\<close> merges them).
  \<open>json_delim\<close> holds of what can follow a value in the encoder's output, and
  \<open>opener\<close> of the first character of an encoded value.\<close>

fun wf_json :: "json \<Rightarrow> bool" where
  "wf_json (JFloat x) = False"
| "wf_json (JArr vs) = list_all wf_json vs"
| "wf_json (JObj kvs) = (distinct (map fst kvs) \<and> list_all (\<lambda>kv. wf_json (snd kv)) kvs)"
| "wf_json _ = True"

definition json_delim :: "string \<Rightarrow> bool" where
  "json_delim r \<longleftrightarrow> r = [] \<or> hd r = CHR '','' \<or> hd r = CHR 0x0A"

definition opener :: "char \<Rightarrow> bool" where
  "opener c \<longleftrightarrow> \<not> is_json_ws c \<and> c \<noteq> CHR '']'' \<and> c \<noteq> CHR ''}'' \<and> c \<noteq> CHR '',''"

section \<open>The decoder consumes its input\<close>

lemma skip_ws_le: "length (skip_ws s) \<le> length s"
  by (induction s) auto

lemma parse_chars_len: "parse_chars acc s = Some (x, r) \<Longrightarrow> length r < length s"
proof (induction acc s arbitrary: x r rule: parse_chars.induct)
  case (1 acc)
  then show ?case by simp
next
  case (2 acc c r0)
  show ?case
  proof (cases "c = CHR 0x22 \<or> c \<noteq> bsl")
    case True
    then consider "c = CHR 0x22" | "c \<noteq> CHR 0x22" "c \<noteq> bsl" by blast
    then show ?thesis
    proof cases
      case 1
      with "2.prems" show ?thesis by simp
    next
      case 2
      with "2.prems" have "\<not> (of_char c :: nat) < 32" "parse_chars (c # acc) r0 = Some (x, r)"
        by (simp_all split: if_splits)
      with 2 "2.IH"(3) have "length r < length r0" by blast
      then show ?thesis by simp
    qed
  next
    case False
    then have c: "c \<noteq> CHR 0x22" "c = bsl" by auto
    with "2.prems" obtain e r' where r0: "r0 = e # r'" by (cases r0) auto
    show ?thesis
    proof (cases "e = CHR ''u''")
      case True
      with "2.prems" c r0 obtain n where n: "hex4 r' = Some n" "n < 256"
        and rec: "parse_chars (char_of n # acc) (drop 4 r') = Some (x, r)"
        by (auto split: option.splits if_splits)
      from "2.IH"(1) [OF c r0 True n rec] have "length r < length (drop 4 r')" .
      with r0 show ?thesis by simp
    next
      case False
      with "2.prems" c r0 obtain c' where c': "short_escape e = Some c'"
        and rec: "parse_chars (c' # acc) r' = Some (x, r)"
        by (auto split: option.splits if_splits)
      from "2.IH"(2) [OF c r0 False c' rec] have "length r < length r'" .
      with r0 show ?thesis by simp
    qed
  qed
qed
lemma strip_lit_len: "strip_lit p s = Some r \<Longrightarrow> length s = length p + length r"
proof -
  assume h: "strip_lit p s = Some r"
  then have "take (length p) s = p" "r = drop (length p) s" by (auto simp: strip_lit_def split: if_splits)
  then have "length p \<le> length s" by (metis length_take min.absorb_iff2 order.refl)
  with \<open>r = drop (length p) s\<close> show ?thesis by simp
qed

lemma skip_ws_tl_less: "s \<noteq> [] \<Longrightarrow> length (skip_ws (tl s)) < length s"
  using skip_ws_le [of "tl s"] by (cases s) auto

lemma length_dropWhile_tl: "length (dropWhile P (tl s)) \<le> length s"
  using length_dropWhile_le [of P "tl s"] by simp

lemma int_part_len: "int_part s = Some (ip, r) \<Longrightarrow> length r < length s"
proof -
  assume h: "int_part s = Some (ip, r)"
  then obtain c cs where s: "s = c # cs" by (cases s) (auto simp: int_part_def)
  have "length (dropWhile is_digit cs) \<le> length cs" by (rule length_dropWhile_le)
  with h s show ?thesis by (auto simp: int_part_def split: if_splits)
qed

lemma frac_part_len: "frac_part s = (fr, r) \<Longrightarrow> length r \<le> length s"
  using length_dropWhile_tl [of is_digit s] by (auto simp: frac_part_def split: if_splits)

lemma exp_part_len: "exp_part s = (ex, r) \<Longrightarrow> length r \<le> length s"
proof -
  assume h: "exp_part s = (ex, r)"
  have "length (dropWhile is_digit (drop n (tl s))) \<le> length s" for n
    using length_dropWhile_le [of is_digit "drop n (tl s)"] by simp
  with h length_dropWhile_tl [of is_digit s] show ?thesis by (auto simp: exp_part_def Let_def split: if_splits)
qed

lemma parse_number_len: "parse_number s = Some (v, r) \<Longrightarrow> length r < length s"
proof -
  assume h: "parse_number s = Some (v, r)"
  define s1 where "s1 = (if starts (CHR ''-'') s then tl s else s)"
  have s1: "length s1 \<le> length s" by (simp add: s1_def)
  from h obtain ip r1 fr r2 ex where ip: "int_part s1 = Some (ip, r1)"
    and fr: "frac_part r1 = (fr, r2)" and ex: "exp_part r2 = (ex, r)"
    by (auto simp: parse_number_def s1_def Let_def split: option.splits prod.splits if_splits)
  from int_part_len [OF ip] frac_part_len [OF fr] exp_part_len [OF ex] s1 show ?thesis by linarith
qed

lemma parse_consumes:
  "(\<forall>s v r. parse_value f s = POk v r \<longrightarrow> length r < length s)
   \<and> (\<forall>acc s vs r. parse_elems f acc s = POk vs r \<longrightarrow> length r < length s)
   \<and> (\<forall>acc s kvs r. parse_members f acc s = POk kvs r \<longrightarrow> length r < length s)"
proof (induction f)
  case 0
  then show ?case by simp
next
  case (Suc f)
  then have IHv: "\<And>s v r. parse_value f s = POk v r \<Longrightarrow> length r < length s"
    and IHe: "\<And>acc s vs r. parse_elems f acc s = POk vs r \<Longrightarrow> length r < length s"
    and IHm: "\<And>acc s kvs r. parse_members f acc s = POk kvs r \<Longrightarrow> length r < length s"
    by blast+
  have V: "length r < length s" if h: "parse_value (Suc f) s = POk v r" for s v r
  proof (cases "starts (CHR 0x22) s")
    case True
    with h obtain str where "parse_chars [] (tl s) = Some (str, r)"
      by (auto split: option.splits)
    then have "length r < length (tl s)" by (rule parse_chars_len)
    then show ?thesis by simp
  next
    case nq: False
    show ?thesis
    proof (cases "starts (CHR ''{'') s")
      case True
      then have lr: "length (skip_ws (tl s)) < length s" by (simp add: starts_def skip_ws_tl_less)
      from h nq True consider "r = tl (skip_ws (tl s))"
        | kvs where "parse_members f [] (skip_ws (tl s)) = POk kvs r"
        by (auto simp: Let_def split: if_splits pres.splits)
      then show ?thesis
      proof cases
        case 1
        with lr show ?thesis by simp
      next
        case 2
        with lr show ?thesis by (auto dest: IHm)
      qed
    next
      case no: False
      show ?thesis
      proof (cases "starts (CHR ''['') s")
        case True
        then have lr: "length (skip_ws (tl s)) < length s" by (simp add: starts_def skip_ws_tl_less)
        from h nq no True consider "r = tl (skip_ws (tl s))"
          | vs where "parse_elems f [] (skip_ws (tl s)) = POk vs r"
          by (auto simp: Let_def split: if_splits pres.splits)
        then show ?thesis
        proof cases
          case 1
          with lr show ?thesis by simp
        next
          case 2
          with lr show ?thesis by (auto dest: IHe)
        qed
      next
        case False
        with h nq no show ?thesis
          by (auto split: option.splits prod.splits dest!: strip_lit_len parse_number_len)
      qed
    qed
  qed
  have E: "length r < length s" if h: "parse_elems (Suc f) acc s = POk vs r" for acc s vs r
  proof -
    from h obtain v r1 where v: "parse_value f s = POk v r1"
      by (auto split: pres.splits)
    then have l1: "length r1 < length s" by (rule IHv)
    have l2: "length (skip_ws r1) \<le> length r1" by (rule skip_ws_le)
    from h v consider "starts (CHR '']'') (skip_ws r1)" "r = tl (skip_ws r1)"
      | "starts (CHR '','') (skip_ws r1)" "parse_elems f (v # acc) (skip_ws (tl (skip_ws r1))) = POk vs r"
      by (auto simp: Let_def split: if_splits)
    then show ?thesis
    proof cases
      case 1
      with l1 l2 show ?thesis by simp
    next
      case 2
      then have "length r < length (skip_ws (tl (skip_ws r1)))" by (auto dest: IHe)
      with l1 l2 skip_ws_le [of "tl (skip_ws r1)"] show ?thesis by simp
    qed
  qed
  have M: "length r < length s" if h: "parse_members (Suc f) acc s = POk kvs r" for acc s kvs r
  proof -
    from h obtain k r1 where k: "parse_chars [] (tl s) = Some (k, r1)" "starts (CHR 0x22) s"
      by (auto split: if_splits option.splits)
    then have l1: "length r1 < length s" using parse_chars_len [OF k(1)] by simp
    let ?r2 = "skip_ws r1"
    from h k obtain v r3 where c: "starts (CHR '':'') ?r2" and v: "parse_value f (skip_ws (tl ?r2)) = POk v r3"
      by (auto simp: Let_def split: if_splits pres.splits)
    have l3: "length r3 < length s"
      using IHv [OF v] l1 skip_ws_le [of r1] skip_ws_le [of "tl ?r2"] by simp
    from h k c v consider "r = tl (skip_ws r3)"
      | "parse_members f ((k, v) # acc) (skip_ws (tl (skip_ws r3))) = POk kvs r"
      by (auto simp: Let_def split: if_splits)
    then show ?thesis
    proof cases
      case 1
      with l3 skip_ws_le [of r3] show ?thesis by simp
    next
      case 2
      then have "length r < length (skip_ws (tl (skip_ws r3)))" by (auto dest: IHm)
      with l3 skip_ws_le [of r3] skip_ws_le [of "tl (skip_ws r3)"] show ?thesis by simp
    qed
  qed
  from V E M show ?case by blast
qed

lemma parse_value_len: "parse_value f s = POk v r \<Longrightarrow> length r < length s"
  using parse_consumes by blast

lemma parse_elems_len: "parse_elems f acc s = POk vs r \<Longrightarrow> length r < length s"
  using parse_consumes by blast

lemma parse_members_len: "parse_members f acc s = POk kvs r \<Longrightarrow> length r < length s"
  using parse_consumes by blast

lemma skip_ws_tl_skip_ws_less: "starts c (skip_ws r) \<Longrightarrow> length (skip_ws (tl (skip_ws r))) < length r"
  using skip_ws_tl_less [of "skip_ws r"] skip_ws_le [of r] by (auto simp: starts_def)

lemma parse_fuel_enough:
  "(\<forall>s. 2 * length s < f \<longrightarrow> parse_value f s \<noteq> PFuel)
   \<and> (\<forall>acc s. 2 * length s + 1 < f \<longrightarrow> parse_elems f acc s \<noteq> PFuel)
   \<and> (\<forall>acc s. 2 * length s + 1 < f \<longrightarrow> parse_members f acc s \<noteq> PFuel)"
proof (induction f)
  case 0
  then show ?case by simp
next
  case (Suc f)
  then have IHv: "\<And>s. 2 * length s < f \<Longrightarrow> parse_value f s \<noteq> PFuel"
    and IHe: "\<And>acc s. 2 * length s + 1 < f \<Longrightarrow> parse_elems f acc s \<noteq> PFuel"
    and IHm: "\<And>acc s. 2 * length s + 1 < f \<Longrightarrow> parse_members f acc s \<noteq> PFuel"
    by blast+
  have V: "parse_value (Suc f) s \<noteq> PFuel" if l: "2 * length s < Suc f" for s
  proof (cases "starts (CHR ''{'') s \<or> starts (CHR ''['') s")
    case True
    then have "s \<noteq> []" by (auto simp: starts_def)
    with l have "2 * length (skip_ws (tl s)) + 1 < f" using skip_ws_tl_less [of s] by simp
    then have "parse_members f [] (skip_ws (tl s)) \<noteq> PFuel" "parse_elems f [] (skip_ws (tl s)) \<noteq> PFuel"
      using IHm IHe by blast+
    then show ?thesis by (auto simp: Let_def split: pres.splits option.splits)
  next
    case False
    then show ?thesis by (auto simp: Let_def split: pres.splits option.splits prod.splits)
  qed
  have E: "parse_elems (Suc f) acc s \<noteq> PFuel" if l: "2 * length s + 1 < Suc f" for acc s
  proof (cases "parse_value f s")
    case (POk v r)
    then have "length r < length s" by (rule parse_value_len)
    then have "starts (CHR '','') (skip_ws r) \<Longrightarrow> parse_elems f (v # acc) (skip_ws (tl (skip_ws r))) \<noteq> PFuel"
      using l by (auto intro!: IHe dest!: skip_ws_tl_skip_ws_less)
    with POk show ?thesis by (auto simp: Let_def)
  qed (use l IHv in auto)
  have M: "parse_members (Suc f) acc s \<noteq> PFuel" if l: "2 * length s + 1 < Suc f" for acc s
  proof (cases "starts (CHR 0x22) s")
    case True
    show ?thesis
    proof (cases "parse_chars [] (tl s)")
      case (Some p)
      then obtain k r1 where k: "parse_chars [] (tl s) = Some (k, r1)" by (cases p) auto
      then have l1: "length r1 < length s" using parse_chars_len [OF k] by simp
      show ?thesis
      proof (cases "starts (CHR '':'') (skip_ws r1)")
        case c: True
        then have l2: "length (skip_ws (tl (skip_ws r1))) < length s"
          using skip_ws_tl_skip_ws_less l1 by fastforce
        show ?thesis
        proof (cases "parse_value f (skip_ws (tl (skip_ws r1)))")
          case (POk v r3)
          then have "length r3 < length s" using parse_value_len l2 by fastforce
          then have "starts (CHR '','') (skip_ws r3) \<Longrightarrow> parse_members f ((k, v) # acc) (skip_ws (tl (skip_ws r3))) \<noteq> PFuel"
            using l by (auto intro!: IHm dest!: skip_ws_tl_skip_ws_less)
          with True k c POk show ?thesis by (auto simp: Let_def)
        qed (use True k c l l2 IHv in auto)
      qed (use True k in \<open>auto simp: Let_def\<close>)
    qed (use True in auto)
  qed simp
  from V E M show ?case by blast
qed

section \<open>String escapes\<close>

lemma less_16_cases: "(d::nat) < 16 \<Longrightarrow>
    d = 0 \<or> d = 1 \<or> d = 2 \<or> d = 3 \<or> d = 4 \<or> d = 5 \<or> d = 6 \<or> d = 7 \<or>
    d = 8 \<or> d = 9 \<or> d = 10 \<or> d = 11 \<or> d = 12 \<or> d = 13 \<or> d = 14 \<or> d = 15"
  by arith

lemma hex_val_hex_digit: "d < 16 \<Longrightarrow> hex_val (hex_digit d) = Some d"
  by (drule less_16_cases) (auto simp: hex_val_def hex_digit_def)

lemma hex4_u_escape: "n < 256 \<Longrightarrow> hex4 (''00'' @ [hex_digit (n div 16), hex_digit (n mod 16)] @ t) = Some n"
proof -
  assume n: "n < 256"
  then have "n div 16 < 16" "n mod 16 < (16::nat)" by auto
  moreover have "hex_val (CHR ''0'') = Some 0" by (simp add: hex_val_def)
  ultimately show ?thesis by (simp add: hex4_def hex_val_hex_digit)
qed

lemma parse_chars_escape_char: "parse_chars acc (json_escape_char c @ t) = parse_chars (c # acc) t"
proof -
  have n: "of_char c < (256::nat)" by (rule nat_of_char_less_256)
  show ?thesis
    using hex4_u_escape [OF n, of t]
    by (auto simp: json_escape_char_def short_escape_def u_escape_def)
qed

lemma parse_chars_quote:
  "parse_chars acc (concat (map json_escape_char s) @ CHR 0x22 # rest) = Some (rev acc @ s, rest)"
  by (induction s arbitrary: acc) (simp_all add: parse_chars_escape_char)

section \<open>Decoding the encoder's output\<close>

lemma skip_ws_spaces: "skip_ws (replicate n (CHR '' '') @ r) = skip_ws r"
  by (induction n) (auto simp: is_json_ws_def)

lemma skip_ws_newline_indent [simp]: "skip_ws (newline_indent l @ r) = skip_ws r"
  by (simp add: newline_indent_def indent_def is_json_ws_def skip_ws_spaces)

lemma dumps_at_Cons: "wf_json v \<Longrightarrow> \<exists>c t. dumps_at l v = c # t \<and> opener c"
proof (cases v)
  case (JInt i)
  obtain c t where "show_nat (nat (- i)) = c # t" "is_digit c" using show_nat_Cons by blast
  moreover obtain c' t' where "show_nat (nat i) = c' # t'" "is_digit c'" using show_nat_Cons by blast
  ultimately show ?thesis using JInt
    by (auto simp: show_int_def opener_def is_json_ws_def is_digit_def)
qed (auto simp: opener_def is_json_ws_def json_quote_def block_def)

lemma skip_ws_opener: "opener c \<Longrightarrow> skip_ws (c # r) = c # r"
  by (simp add: opener_def)

lemma skip_ws_dumps [simp]: "wf_json v \<Longrightarrow> skip_ws (dumps_at l v @ r) = dumps_at l v @ r"
  using dumps_at_Cons [of v l] by (auto simp: opener_def)

lemma starts_dumps [simp]:
  "wf_json v \<Longrightarrow> starts (CHR '']'') (dumps_at l v @ r) = False"
  "wf_json v \<Longrightarrow> starts (CHR ''}'') (dumps_at l v @ r) = False"
  using dumps_at_Cons [of v l] by (auto simp: opener_def starts_def)

lemma json_delim_Cons: "json_delim (c # r) \<longleftrightarrow> c = CHR '','' \<or> c = CHR 0x0A"
  by (simp add: json_delim_def)

lemma json_delim_digits: "json_delim r \<Longrightarrow> takeWhile is_digit r = [] \<and> dropWhile is_digit r = r"
  by (cases r) (auto simp: json_delim_def is_digit_def)

lemma json_delim_frac_exp: "json_delim r \<Longrightarrow> frac_part r = ([], r) \<and> exp_part r = ([], r)"
  by (cases r) (auto simp: json_delim_def frac_part_def exp_part_def starts_def)

lemma int_part_show_nat: "json_delim r \<Longrightarrow> int_part (show_nat n @ r) = Some (show_nat n, r)"
proof (cases "n = 0")
  case True
  then show ?thesis by (simp add: int_part_def show_nat.simps [of 0] digit_char_def)
next
  case False
  assume r: "json_delim r"
  obtain c t where ct: "show_nat n = c # t" "is_digit c" using show_nat_Cons by blast
  with False have "c \<noteq> CHR ''0''" using show_nat_hd_zero [of n] by auto
  moreover have "takeWhile is_digit (show_nat n @ r) = show_nat n"
    "dropWhile is_digit (show_nat n @ r) = r"
    using json_delim_digits [OF r] show_nat_digits [of _ n]
    by (simp_all add: takeWhile_append2 dropWhile_append2)
  ultimately show ?thesis using ct by (simp add: int_part_def)
qed

lemma parse_number_show_int: "json_delim r \<Longrightarrow> parse_number (show_int i @ r) = Some (JInt i, r)"
proof -
  assume r: "json_delim r"
  obtain c t where ct: "show_nat (nat i) = c # t" "is_digit c" using show_nat_Cons by blast
  then have "\<not> starts (CHR ''-'') (show_nat (nat i) @ r)" by (auto simp: starts_def is_digit_def)
  then show ?thesis
    using int_part_show_nat [OF r] json_delim_frac_exp [OF r]
    by (auto simp: parse_number_def show_int_def starts_def)
qed

lemma strip_lit_other: "p \<noteq> [] \<Longrightarrow> hd s \<noteq> hd p \<Longrightarrow> strip_lit p s = None"
  by (cases s; cases p) (auto simp: strip_lit_def)

lemma parse_value_show_int:
  "json_delim r \<Longrightarrow> parse_value (Suc f) (show_int i @ r) = POk (JInt i) r"
proof -
  assume r: "json_delim r"
  obtain c t where ct: "show_int i = c # t" "c = CHR ''-'' \<or> is_digit c"
  proof (cases "i < 0")
    case False
    with show_nat_Cons [of "nat i"] that show ?thesis by (auto simp: show_int_def)
  qed (auto simp: show_int_def)
  have lit: "strip_lit p (show_int i @ r) = None" if "p \<in> {''null'', ''true'', ''false''}" for p
    using that ct by (intro strip_lit_other) (auto simp: is_digit_def)
  have st: "\<not> starts c' (show_int i @ r)" if "c' \<in> {CHR 0x22, CHR ''{'', CHR ''[''}" for c'
    using that ct by (auto simp: starts_def is_digit_def)
  show ?thesis
    using lit st by (simp add: parse_number_show_int [OF r])
qed

lemma dict_set_new: "k \<notin> set (map fst d) \<Longrightarrow> dict_set k v d = d @ [(k, v)]"
  by (induction d) auto

lemma foldl_dict_set:
  "distinct (map fst (d @ kvs)) \<Longrightarrow> foldl (\<lambda>d (k, v). dict_set k v d) d kvs = d @ kvs"
  by (induction kvs arbitrary: d) (auto simp: dict_set_new)

lemma dict_of_pairs_distinct: "distinct (map fst kvs) \<Longrightarrow> dict_of_pairs kvs = kvs"
  using foldl_dict_set [of "[]" kvs] by (simp add: dict_of_pairs_def)

lemma json_delim_newline_indent [simp]: "json_delim (newline_indent l @ r)"
  by (simp add: json_delim_def newline_indent_def)

lemma skip_ws_close [simp]:
  "skip_ws (CHR '']'' # r) = CHR '']'' # r" "skip_ws (CHR ''}'' # r) = CHR ''}'' # r"
  "skip_ws (CHR '','' # r) = CHR '','' # r" "skip_ws (CHR '':'' # r) = CHR '':'' # r"
  "skip_ws (CHR '' '' # r) = skip_ws r"
  by (simp_all add: is_json_ws_def)

lemma parse_elems_dumps:
  assumes "\<And>w f rest. w \<in> set (v # vs) \<Longrightarrow> json_delim rest \<Longrightarrow>
             parse_value f (dumps_at l w @ rest) \<noteq> PFuel \<Longrightarrow> parse_value f (dumps_at l w @ rest) = POk w rest"
    and "list_all wf_json (v # vs)"
    and "parse_elems f acc (dumps_at l v @ concat (map (\<lambda>y. CHR '','' # newline_indent l @ y) (map (dumps_at l) vs))
           @ newline_indent l' @ CHR '']'' # rest) \<noteq> PFuel"
  shows "parse_elems f acc (dumps_at l v @ concat (map (\<lambda>y. CHR '','' # newline_indent l @ y) (map (dumps_at l) vs))
           @ newline_indent l' @ CHR '']'' # rest) = POk (rev acc @ v # vs) rest"
  using assms
proof (induction vs arbitrary: f acc v)
  case Nil
  from Nil.prems(3) obtain f' where f: "f = Suc f'" by (cases f) auto
  let ?t = "newline_indent l' @ CHR '']'' # rest"
  have "parse_value f' (dumps_at l v @ ?t) \<noteq> PFuel"
    using Nil.prems(3) f by (auto split: pres.splits)
  then have "parse_value f' (dumps_at l v @ ?t) = POk v ?t" using Nil.prems(1) by simp
  then show ?case using f by (simp add: starts_def is_json_ws_def)
next
  case (Cons w ws)
  from Cons.prems(3) obtain f' where f: "f = Suc f'" by (cases f) auto
  let ?u = "dumps_at l w @ concat (map (\<lambda>y. CHR '','' # newline_indent l @ y) (map (dumps_at l) ws))
           @ newline_indent l' @ CHR '']'' # rest"
  let ?t = "CHR '','' # newline_indent l @ ?u"
  have "parse_value f' (dumps_at l v @ ?t) \<noteq> PFuel"
    using Cons.prems(3) f by (auto split: pres.splits)
  then have pv: "parse_value f' (dumps_at l v @ ?t) = POk v ?t"
    using Cons.prems(1) by (simp add: json_delim_def)
  have wf: "wf_json w" "list_all wf_json (w # ws)" using Cons.prems(2) by simp_all
  have eq: "parse_elems f acc (dumps_at l v @ ?t) = parse_elems f' (v # acc) ?u"
    using pv wf(1) f by (simp add: starts_def is_json_ws_def)
  have "parse_elems f' (v # acc) ?u = POk (rev (v # acc) @ w # ws) rest"
    using Cons.prems(1) wf(2) Cons.prems(3) eq by (intro Cons.IH) auto
  with eq show ?case by simp
qed

lemma parse_members_dumps:
  assumes "\<And>k w f rest. (k, w) \<in> set ((k0, v0) # kvs) \<Longrightarrow> json_delim rest \<Longrightarrow>
             parse_value f (dumps_at l w @ rest) \<noteq> PFuel \<Longrightarrow> parse_value f (dumps_at l w @ rest) = POk w rest"
    and "list_all (\<lambda>kv. wf_json (snd kv)) ((k0, v0) # kvs)"
    and "parse_members f acc (json_quote k0 @ '': '' @ dumps_at l v0
           @ concat (map (\<lambda>y. CHR '','' # newline_indent l @ y) (map (\<lambda>(k, v). json_quote k @ '': '' @ dumps_at l v) kvs))
           @ newline_indent l' @ CHR ''}'' # rest) \<noteq> PFuel"
  shows "parse_members f acc (json_quote k0 @ '': '' @ dumps_at l v0
           @ concat (map (\<lambda>y. CHR '','' # newline_indent l @ y) (map (\<lambda>(k, v). json_quote k @ '': '' @ dumps_at l v) kvs))
           @ newline_indent l' @ CHR ''}'' # rest) = POk (rev acc @ (k0, v0) # kvs) rest"
  using assms
proof (induction kvs arbitrary: f acc k0 v0)
  case Nil
  from Nil.prems(3) obtain f' where f: "f = Suc f'" by (cases f) auto
  let ?t = "newline_indent l' @ CHR ''}'' # rest"
  have wf: "wf_json v0" using Nil.prems(2) by simp
  have "parse_value f' (dumps_at l v0 @ ?t) \<noteq> PFuel"
    using Nil.prems(3) f wf by (auto simp: json_quote_def starts_def parse_chars_quote is_json_ws_def split: pres.splits)
  then have "parse_value f' (dumps_at l v0 @ ?t) = POk v0 ?t" using Nil.prems(1) by simp
  then show ?case using f wf by (simp add: json_quote_def starts_def parse_chars_quote is_json_ws_def)
next
  case (Cons kv kvs)
  obtain k1 v1 where kv: "kv = (k1, v1)" by (cases kv)
  from Cons.prems(3) obtain f' where f: "f = Suc f'" by (cases f) auto
  let ?u = "json_quote k1 @ '': '' @ dumps_at l v1
           @ concat (map (\<lambda>y. CHR '','' # newline_indent l @ y) (map (\<lambda>(k, v). json_quote k @ '': '' @ dumps_at l v) kvs))
           @ newline_indent l' @ CHR ''}'' # rest"
  let ?t = "CHR '','' # newline_indent l @ ?u"
  have wf: "wf_json v0" "list_all (\<lambda>kv. wf_json (snd kv)) ((k1, v1) # kvs)"
    using Cons.prems(2) kv by simp_all
  have pre: "parse_members f acc (json_quote k0 @ '': '' @ dumps_at l v0 @ ?t) =
      (case parse_value f' (dumps_at l v0 @ ?t) of
         POk v r3 \<Rightarrow>
           (let r4 = skip_ws r3 in
            if starts (CHR ''}'') r4 then POk (rev ((k0, v) # acc)) (tl r4)
            else if starts (CHR '','') r4 then parse_members f' ((k0, v) # acc) (skip_ws (tl r4))
            else PErr)
       | PErr \<Rightarrow> PErr
       | PFuel \<Rightarrow> PFuel)"
    using f wf(1) by (simp add: json_quote_def starts_def parse_chars_quote is_json_ws_def)
  have "parse_value f' (dumps_at l v0 @ ?t) \<noteq> PFuel"
    using Cons.prems(3) kv pre by (auto split: pres.splits)
  then have pv: "parse_value f' (dumps_at l v0 @ ?t) = POk v0 ?t"
    using Cons.prems(1) [of k0 v0] by (simp add: json_delim_def)
  have "skip_ws ?u = ?u" by (simp add: json_quote_def is_json_ws_def)
  then have eq: "parse_members f acc (json_quote k0 @ '': '' @ dumps_at l v0 @ ?t) = parse_members f' ((k0, v0) # acc) ?u"
    using pre pv by (simp add: starts_def is_json_ws_def)
  have "parse_members f' ((k0, v0) # acc) ?u = POk (rev ((k0, v0) # acc) @ (k1, v1) # kvs) rest"
    using Cons.prems(1) wf(2) Cons.prems(3) eq kv by (intro Cons.IH) auto
  with eq kv show ?case by simp
qed

lemma starts_Cons: "starts c (d # r) \<longleftrightarrow> d = c"
  by (simp add: starts_def)

lemma parse_value_dumps:
  "wf_json v \<Longrightarrow> json_delim rest \<Longrightarrow> parse_value f (dumps_at l v @ rest) \<noteq> PFuel \<Longrightarrow>
   parse_value f (dumps_at l v @ rest) = POk v rest"
proof (induction l v arbitrary: f rest rule: dumps_at.induct)
  case (1 l)
  then obtain f' where "f = Suc f'" by (cases f) auto
  then show ?case by (simp add: starts_def strip_lit_def)
next
  case (2 l b)
  then obtain f' where "f = Suc f'" by (cases f) auto
  then show ?case by (cases b) (simp_all add: starts_def strip_lit_def)
next
  case (3 l i)
  then obtain f' where "f = Suc f'" by (cases f) auto
  then show ?case unfolding dumps_at.simps by (simp only: parse_value_show_int [OF "3.prems"(2)])
next
  case (4 l x)
  then show ?case by simp
next
  case (5 l s)
  then obtain f' where "f = Suc f'" by (cases f) auto
  then show ?case by (simp add: json_quote_def starts_def parse_chars_quote)
next
  case (6 l vs)
  then obtain f' where f: "f = Suc f'" by (cases f) auto
  show ?case
  proof (cases vs)
    case Nil
    then show ?thesis using f by (simp add: block_def starts_def is_json_ws_def)
  next
    case (Cons v vs')
    let ?u = "dumps_at (Suc l) v @ concat (map (\<lambda>y. CHR '','' # newline_indent (Suc l) @ y) (map (dumps_at (Suc l)) vs'))
           @ newline_indent l @ CHR '']'' # rest"
    have wf: "list_all wf_json (v # vs')" using "6.prems"(1) Cons by simp
    have pre: "parse_value f (dumps_at l (JArr vs) @ rest) =
        (case parse_elems f' [] ?u of POk vs r' \<Rightarrow> POk (JArr vs) r' | PErr \<Rightarrow> PErr | PFuel \<Rightarrow> PFuel)"
      using f Cons wf by (simp add: block_def py_join_Cons starts_Cons Let_def)
    then have "parse_elems f' [] ?u \<noteq> PFuel" using "6.prems"(3) by (auto split: pres.splits)
    moreover have "\<And>w f rest. w \<in> set (v # vs') \<Longrightarrow> json_delim rest \<Longrightarrow>
        parse_value f (dumps_at (Suc l) w @ rest) \<noteq> PFuel \<Longrightarrow> parse_value f (dumps_at (Suc l) w @ rest) = POk w rest"
      using "6.IH" wf Cons by (auto simp: list_all_iff)
    ultimately have "parse_elems f' [] ?u = POk (v # vs') rest"
      using wf parse_elems_dumps [of v vs' "Suc l" f' "[]" l rest] by simp
    with pre Cons show ?thesis by simp
  qed
next
  case (7 l kvs)
  then obtain f' where f: "f = Suc f'" by (cases f) auto
  show ?case
  proof (cases kvs)
    case Nil
    then show ?thesis using f by (simp add: block_def starts_def is_json_ws_def)
  next
    case (Cons kv kvs')
    obtain k0 v0 where kv: "kv = (k0, v0)" by (cases kv)
    let ?u = "json_quote k0 @ '': '' @ dumps_at (Suc l) v0
           @ concat (map (\<lambda>y. CHR '','' # newline_indent (Suc l) @ y) (map (\<lambda>(k, v). json_quote k @ '': '' @ dumps_at (Suc l) v) kvs'))
           @ newline_indent l @ CHR ''}'' # rest"
    have wf: "list_all (\<lambda>kv. wf_json (snd kv)) ((k0, v0) # kvs')" "distinct (map fst kvs)"
      using "7.prems"(1) Cons kv by simp_all
    have pre: "parse_value f (dumps_at l (JObj kvs) @ rest) =
        (case parse_members f' [] ?u of POk kvs r' \<Rightarrow> POk (JObj (dict_of_pairs kvs)) r' | PErr \<Rightarrow> PErr | PFuel \<Rightarrow> PFuel)"
      using f Cons kv by (simp add: block_def py_join_Cons starts_Cons Let_def json_quote_def is_json_ws_def)
    then have "parse_members f' [] ?u \<noteq> PFuel" using "7.prems"(3) by (auto split: pres.splits)
    moreover have "\<And>k w f rest. (k, w) \<in> set ((k0, v0) # kvs') \<Longrightarrow> json_delim rest \<Longrightarrow>
        parse_value f (dumps_at (Suc l) w @ rest) \<noteq> PFuel \<Longrightarrow> parse_value f (dumps_at (Suc l) w @ rest) = POk w rest"
      using "7.IH" wf(1) Cons kv by (fastforce simp: list_all_iff)
    ultimately have "parse_members f' [] ?u = POk ((k0, v0) # kvs') rest"
      using wf(1) parse_members_dumps [of k0 v0 kvs' "Suc l" f' "[]" l rest] by simp
    with pre Cons kv wf(2) show ?thesis by (simp add: dict_of_pairs_distinct)
  qed
qed

text \<open>\<open>json.load\<close> inverts \<open>json.dump(indent=4)\<close> on well-formed documents.\<close>

lemma json_loads_dumps: "wf_json v \<Longrightarrow> json_loads (json_dumps v) = Some v"
proof -
  assume wf: "wf_json v"
  let ?s = "dumps_at 0 v"
  define f where "f = Suc (2 * length ?s)"
  have sk: "skip_ws ?s = ?s" using skip_ws_dumps [OF wf, of 0 "[]"] by simp
  have "2 * length (?s @ []) < f" by (simp add: f_def)
  then have "parse_value f (?s @ []) \<noteq> PFuel" using parse_fuel_enough by blast
  then have pv: "parse_value f ?s = POk v []"
    using parse_value_dumps [OF wf] by (simp add: json_delim_def)
  show ?thesis
    unfolding json_loads_def json_dumps_def Let_def sk f_def [symmetric] by (simp add: pv)
qed

text \<open>The fuel \<open>json_loads\<close> starts with is enough: the decoder is total, and \<open>None\<close>
  from \<open>json_loads\<close> is always a decoding error.\<close>

lemma json_loads_fuel_enough: "parse_value (Suc (2 * length s)) s \<noteq> PFuel"
proof -
  have "2 * length s < Suc (2 * length s)" by simp
  then show ?thesis using parse_fuel_enough by blast
qed

end
