(* ===== verification/Storage.thy ===== *)
theory Storage
  imports Store Json_Decode
begin

text \<open>
  Loading the file, \<open>load_tasks\<close> (\<open>src/todo_app.py\<close>, lines 9--21), over the
  \<open>disk\<close> of \<open>Store\<close>: a missing file (\<open>content = None\<close>, \<open>os.path.exists\<close> is false)
  gives the empty list silently; an \<open>open\<close> that raises reports
  \<open>Error loading tasks: ...\<close> and gives the empty list; text that \<open>json.load\<close>
  rejects reports the invalid-JSON message and gives the empty list; otherwise the
  decoded document is returned as it is. The result is the JSON document the program
  goes on with (\<open>JArr []\<close> is Python's \<open>[]\<close>) and the messages printed; the
  content of the file is its decoded text.

  \<open>synced s\<close> says the file holds the encoding of the list in memory. Every
  operation of the store keeps it while writing succeeds, and then loading the file
  gives the list back: the durable state follows the memory after every mutation.
\<close>

definition load_tasks :: "disk \<Rightarrow> json \<times> msg list" where
  "load_tasks d =
     (case content d of
        None \<Rightarrow> (JArr [], [])
      | Some text \<Rightarrow>
          (case read_error d of
             Some e \<Rightarrow> (JArr [], [LoadErrorMsg e])
           | None \<Rightarrow>
               (case json_loads text of
                  None \<Rightarrow> (JArr [], [InvalidJsonMsg])
                | Some v \<Rightarrow> (v, []))))"

declare load_tasks_def [model_defs]

definition synced :: "store \<Rightarrow> bool" where
  "synced s \<longleftrightarrow> content (disk s) = Some (json_dumps (json_of_tasks (tasks s)))"

text \<open>The file loads back to the list in memory.\<close>

definition loads_back :: "store \<Rightarrow> bool" where
  "loads_back s \<longleftrightarrow> tasks_of_json (fst (load_tasks (disk s))) = Some (tasks s)"

section \<open>Loading what was saved\<close>

lemma wf_json_of_tasks [simp]: "wf_json (json_of_tasks ts)"
proof -
  have "wf_json (json_of_task t)" for t
    by (cases "due_date t") (simp_all add: json_of_task_def json_of_opt_str_def)
  then show ?thesis by (simp add: json_of_tasks_def list_all_iff)
qed

lemma save_tasks_disk_errors [simp]:
  "read_error (fst (save_tasks ts d)) = read_error d"
  "write_error (fst (save_tasks ts d)) = write_error d"
  by (simp_all add: save_tasks_def split: option.splits)

lemma commit_synced: "write_error (disk s) = None \<Longrightarrow> synced (commit ts ms s)"
  by (simp add: synced_def commit_def save_tasks_def)

lemma commit_disk_errors [simp]:
  "read_error (disk (commit ts ms s)) = read_error (disk s)"
  "write_error (disk (commit ts ms s)) = write_error (disk s)"
  by (simp_all add: commit_def split: prod.splits) (metis fst_conv save_tasks_disk_errors)+

lemma store_step_disk_errors [simp]:
  "read_error (disk (store_step s op)) = read_error (disk s)"
  "write_error (disk (store_step s op)) = write_error (disk s)"
  by (cases op;
      simp add: add_task_def mark_complete_def delete_task_def emit_def
           split: option.splits prod.splits)+

lemma synced_out [simp]: "synced (s\<lparr>out := ms\<rparr>) \<longleftrightarrow> synced s"
  by (simp add: synced_def)

lemma store_step_synced:
  "write_error (disk s) = None \<Longrightarrow> synced s \<Longrightarrow> synced (store_step s op)"
  by (cases op)
     (auto simp: add_task_def mark_complete_def delete_task_def emit_def commit_synced
           split: option.splits prod.splits intro: synced_def [THEN iffD2])

lemma store_run_synced:
  "write_error (disk s) = None \<Longrightarrow> synced s \<Longrightarrow> synced (store_run s ops)"
  by (induction ops arbitrary: s) (simp_all add: store_step_synced)

lemma store_run_disk_errors [simp]:
  "read_error (disk (store_run s ops)) = read_error (disk s)"
  "write_error (disk (store_run s ops)) = write_error (disk s)"
  by (induction ops arbitrary: s) simp_all

lemma load_tasks_synced:
  "read_error (disk s) = None \<Longrightarrow> synced s \<Longrightarrow> load_tasks (disk s) = (json_of_tasks (tasks s), [])"
  by (simp add: load_tasks_def synced_def json_loads_dumps)

lemma loads_back_out [simp]: "loads_back (s\<lparr>out := ms\<rparr>) \<longleftrightarrow> loads_back s"
  by (simp add: loads_back_def)

lemma store_step_loads_back:
  assumes "write_error (disk s) = None" "read_error (disk s) = None" "loads_back s"
  shows "loads_back (store_step s op)"
proof -
  have c: "loads_back (commit ts ms s)" for ts ms
  proof -
    have "synced (commit ts ms s)" using assms(1) by (rule commit_synced)
    moreover have "read_error (disk (commit ts ms s)) = None" using assms(2) by simp
    ultimately show ?thesis by (simp add: loads_back_def load_tasks_synced)
  qed
  show ?thesis
    using assms(3) c
    by (cases op) (auto simp: add_task_def mark_complete_def delete_task_def emit_def
        split: option.splits prod.splits)
qed

text \<open>C20: writing a list and reading the file back gives the encoding of the same
  list, which \<open>tasks_of_json\<close> turns back into it: saving is lossless for
  every field and keeps the order.\<close>

theorem save_load_roundtrip:
  "write_error d = None \<Longrightarrow> read_error d = None \<Longrightarrow>
   load_tasks (fst (save_tasks ts d)) = (json_of_tasks ts, [])"
  by (simp add: load_tasks_def save_tasks_def json_loads_dumps)

end
