(* ===== verification/Menu.thy ===== *)
theory Menu
  imports Storage
begin

text \<open>
  The interactive program, \<open>main\<close> (\<open>src/todo_app.py\<close>, lines 103--167): load the
  file, print the banner, then repeat the menu until option 6 or until \<open>input()\<close>
  raises. Standard input is the list of lines still to be read; \<open>input(prompt)\<close>
  prints the prompt (\<open>Prompt\<close>) and takes the next line, and raises \<open>EOFError\<close>
  when there is none, which no handler of \<open>main\<close> catches. The clock is read as one
  instant \<open>now\<close> for the session: \<open>add_task\<close> stamps it, and \<open>validate_date\<close> and
  \<open>display_tasks\<close> compare with its date.
  \<^item> \<open>py_int\<close> is \<open>int(s)\<close> on a string (lines 144 and 151): surrounding white
    space (\<open>int_strip\<close>, which skips less than \<open>str.strip()\<close>), an optional sign, decimal digits with single underscores between them;
    \<open>None\<close> is \<open>ValueError\<close>;
  \<^item> \<open>menu_iter\<close> is one pass of the \<open>while True\<close> body: the menu, the choice, and
    the dialog of the option chosen (\<open>add_dialog\<close>, \<open>id_dialog\<close>, \<open>show_tasks\<close>);
    \<open>Continue\<close> goes round again with the remaining input (\<open>continue\<close> included),
    \<open>Stop\<close> leaves the loop, by \<open>break\<close> (\<open>Exited\<close>) or by an exception that
    escapes (\<open>Raised\<close>);
  \<^item> \<open>main_loop\<close> iterates it; each pass reads at least one line, which is its
    termination measure;
  \<^item> \<open>main\<close> is the whole program on a file and an input.
\<close>

section \<open>int() on a string\<close>

text \<open>The digits after the first one: \<open>(_?[0-9])*\<close>.\<close>

fun us_rest :: "string \<Rightarrow> bool" where
  "us_rest [] = True"
| "us_rest (c # r) =
     (if c = CHR ''_'' then (case r of [] \<Rightarrow> False | d # r' \<Rightarrow> is_digit d \<and> us_rest r')
      else is_digit c \<and> us_rest r)"

definition dec_literal :: "string \<Rightarrow> bool" where
  "dec_literal s \<longleftrightarrow> s \<noteq> [] \<and> is_digit (hd s) \<and> us_rest (tl s)"

text \<open>The white space \<open>int()\<close> skips around the literal: CPython first maps the
  non-ASCII white space (NEL 0x85, NBSP 0xA0) to a space, keeps every ASCII character,
  and \<open>PyLong_FromString\<close> then skips the C white space \<open>\t \n \v \f \r\<close> and space.
  Unlike \<open>str.strip()\<close>, the separators 0x1c..0x1f are not skipped.\<close>

definition is_int_space :: "char \<Rightarrow> bool" where
  "is_int_space c \<longleftrightarrow> of_char c \<in> {9, 10, 11, 12, 13, 32, 133, 160 :: nat}"

definition int_strip :: "string \<Rightarrow> string" where
  "int_strip s = rev (dropWhile is_int_space (rev (dropWhile is_int_space s)))"

definition py_int :: "string \<Rightarrow> int option" where
  "py_int s =
     (let t = int_strip s;
          signed = (t \<noteq> [] \<and> (hd t = CHR ''-'' \<or> hd t = CHR ''+''));
          body = (if signed then tl t else t)
      in if dec_literal body
         then Some ((if signed \<and> hd t = CHR ''-'' then -1 else 1)
                    * int (digits_value (filter (\<lambda>c. c \<noteq> CHR ''_'') body)))
         else None)"

declare dec_literal_def [model_defs] py_int_def [model_defs] int_strip_def [model_defs] is_int_space_def [model_defs]

section \<open>Texts of the menu\<close>

definition banner :: string where
  "banner =
     CHR 0x0A # ''    =========================================='' @
     CHR 0x0A # ''          Task Manager by Zeshan Noor'' @
     CHR 0x0A # ''    =========================================='' @
     CHR 0x0A # ''    Organize your tasks with ease and efficiency.'' @
     CHR 0x0A # ''    ''"

definition menu_text :: "msg list" where
  "menu_text =
     [Text (CHR 0x0A # ''=== Task Manager Menu ===''), Text ''1. Add Task'',
      Text ''2. Mark Task Completed'', Text ''3. Delete Task'', Text ''4. View All Tasks'',
      Text ''5. View Incomplete Tasks'', Text ''6. Exit'']"

declare banner_def [model_defs] menu_text_def [model_defs]

section \<open>One pass of the loop\<close>

datatype menu_end = Exited | Raised py_exc

datatype menu_res = Continue store "string list" | Stop store menu_end

definition emits :: "msg list \<Rightarrow> store \<Rightarrow> store" where
  "emits ms s = s\<lparr>out := out s @ ms\<rparr>"

text \<open>Option 1 (lines 125--140), after the choice was read.\<close>

definition add_dialog :: "datetime \<Rightarrow> store \<Rightarrow> string list \<Rightarrow> menu_res" where
  "add_dialog now s inp =
     (let s1 = emit (Prompt ''Enter task description: '') s in
      case inp of
        [] \<Rightarrow> Stop s1 (Raised EOFError)
      | l1 # inp2 \<Rightarrow>
          (let description = py_strip l1 in
           if py_truthy description then
             (let s2 = emit (Prompt ''Enter category (e.g., Work, Personal, or press Enter for General): '') s1 in
              case inp2 of
                [] \<Rightarrow> Stop s2 (Raised EOFError)
              | l2 # inp3 \<Rightarrow>
                  (let category = (if py_truthy (py_strip l2) then py_strip l2 else ''General'');
                       s3 = emit (Prompt ''Enter due date (YYYY-MM-DD, or press Enter to skip): '') s2 in
                   case inp3 of
                     [] \<Rightarrow> Stop s3 (Raised EOFError)
                   | l3 # inp4 \<Rightarrow>
                       (let due_date_input = py_strip l3 in
                        if py_truthy due_date_input then
                          (case validate_date (date_of now) due_date_input of
                             Inl e \<Rightarrow> Continue (emit (Text (''Error: '' @ date_error_msg e)) s3) inp4
                           | Inr r \<Rightarrow> Continue (add_task now description category (Some r) s3) inp4)
                        else Continue (add_task now description category None s3) inp4)))
           else Continue (emit (Text ''Error: Task description cannot be empty.'') s1) inp2))"

text \<open>Options 2 and 3 (lines 142--154): read an id with \<open>int()\<close>, catch its
  \<open>ValueError\<close>, call the operation.\<close>

definition id_dialog :: "string \<Rightarrow> (int \<Rightarrow> store \<Rightarrow> store) \<Rightarrow> store \<Rightarrow> string list \<Rightarrow> menu_res" where
  "id_dialog prompt op s inp =
     (let s1 = emit (Prompt prompt) s in
      case inp of
        [] \<Rightarrow> Stop s1 (Raised EOFError)
      | l # inp2 \<Rightarrow>
          (case py_int l of
             None \<Rightarrow> Continue (emit (Text ''Error: Please enter a valid numeric ID.'') s1) inp2
           | Some tid \<Rightarrow> Continue (op tid s1) inp2))"

text \<open>Options 4 and 5 (lines 156--160): the rows printed, and the \<open>ValueError\<close> of
  \<open>display_tasks\<close>, if raised, ends the program.\<close>

definition show_tasks :: "date \<Rightarrow> bool \<Rightarrow> store \<Rightarrow> string list \<Rightarrow> menu_res" where
  "show_tasks today incomplete_only s inp =
     (case display_tasks today incomplete_only (tasks s) of
        (ms, None) \<Rightarrow> Continue (emits ms s) inp
      | (ms, Some e) \<Rightarrow> Stop (emits ms s) (Raised e))"

text \<open>Lines 115--123: the menu and the prompt of the choice.\<close>

definition show_menu :: "store \<Rightarrow> store" where
  "show_menu s = emits (menu_text @ [Prompt ''Select an option (1-6): '']) s"

definition menu_iter :: "datetime \<Rightarrow> store \<Rightarrow> string list \<Rightarrow> menu_res" where
  "menu_iter now s inp =
     (let s0 = show_menu s in
      case inp of
        [] \<Rightarrow> Stop s0 (Raised EOFError)
      | line # inp1 \<Rightarrow>
          (let choice = py_strip line in
           if choice = ''1'' then add_dialog now s0 inp1
           else if choice = ''2'' then id_dialog ''Enter task ID to mark as completed: '' mark_complete s0 inp1
           else if choice = ''3'' then id_dialog ''Enter task ID to delete: '' delete_task s0 inp1
           else if choice = ''4'' then show_tasks (date_of now) False s0 inp1
           else if choice = ''5'' then show_tasks (date_of now) True s0 inp1
           else if choice = ''6'' then Stop (emit (Text ''Thank you for using Task Manager by Zeshan Noor.'') s0) Exited
           else Continue (emit (Text ''Invalid option. Please select 1-6.'') s0) inp1))"

declare emits_def [model_defs] show_menu_def [model_defs] add_dialog_def [model_defs] id_dialog_def [model_defs]
  show_tasks_def [model_defs] menu_iter_def [model_defs]

text \<open>A due date the menu can store: absent, or a string \<open>validate_date\<close> returns.\<close>

fun op_validated :: "date \<Rightarrow> store_op \<Rightarrow> bool" where
  "op_validated today (AddOp now d c (Some r)) = (validate_date today r = Inr r)"
| "op_validated today _ = True"

section \<open>The loop and the program\<close>

function main_loop :: "datetime \<Rightarrow> store \<Rightarrow> string list \<Rightarrow> store \<times> menu_end" where
  "main_loop now s inp =
     (case menu_iter now s inp of
        Continue s' inp' \<Rightarrow> main_loop now s' inp'
      | Stop s' e \<Rightarrow> (s', e))"
  by pat_completeness auto
termination
proof (relation "measure (\<lambda>(now, s, inp). length inp)")
  fix now s inp s' inp'
  assume "menu_iter now s inp = Continue s' inp'"
  then show "((now, s', inp'), (now, s, inp)) \<in> measure (\<lambda>(now, s, inp). length inp)"
    by (auto simp: menu_iter_def add_dialog_def id_dialog_def show_tasks_def Let_def show_menu_def
        split: list.splits if_splits option.splits sum.splits prod.splits)
qed simp

declare main_loop.simps [simp del]

text \<open>\<open>main()\<close> on the file \<open>d\<close> and the input \<open>inp\<close>: \<open>None\<close> when the file holds
  JSON that is not a list of tasks, which the program would go on with as it is.\<close>

definition main :: "datetime \<Rightarrow> disk \<Rightarrow> string list \<Rightarrow> (store \<times> menu_end) option" where
  "main now d inp =
     (case load_tasks d of
        (v, ms) \<Rightarrow>
          (case tasks_of_json v of
             None \<Rightarrow> None
           | Some ts \<Rightarrow> Some (main_loop now \<lparr>tasks = ts, disk = d, out = ms @ [Text banner]\<rparr> inp)))"

declare main_def [model_defs]

section \<open>Lemmas\<close>

text \<open>The definitions a concrete session unfolds to, without the text of the file
  (\<open>json_dumps\<close> stays symbolic).\<close>

lemmas menu_eval = main_def load_tasks_def main_loop.simps menu_iter_def show_menu_def add_dialog_def
  id_dialog_def show_tasks_def py_int_def int_strip_def is_int_space_def dec_literal_def py_strip_def is_py_space_def
  add_task_def mark_complete_def delete_task_def commit_def save_tasks_def new_task_def py_pop_def
  display_tasks_def digits_value_def is_digit_def digit_val_def

lemma emits_out [simp]: "emits ms s = s\<lparr>out := out s @ ms\<rparr>" "emit m s = s\<lparr>out := out s @ [m]\<rparr>"
  by (simp_all add: emits_def emit_def)

lemma menu_iter_len: "menu_iter now s inp = Continue s' inp' \<Longrightarrow> length inp' < length inp"
  by (auto simp: menu_iter_def add_dialog_def id_dialog_def show_tasks_def Let_def
      split: list.splits if_splits option.splits sum.splits prod.splits)

lemma show_menu_out: "show_menu s = s\<lparr>out := out s @ menu_text @ [Prompt ''Select an option (1-6): '']\<rparr>"
  by (simp add: show_menu_def)

text \<open>C26: option 1 with a description that is blank after \<open>strip()\<close> prints the
  error and goes back to the menu, having read only the description: the list and
  the file are unchanged.\<close>

theorem menu_empty_description:
  "py_strip c = ''1'' \<Longrightarrow> py_strip d = [] \<Longrightarrow>
   menu_iter now s (c # d # rest) =
     Continue (emit (Text ''Error: Task description cannot be empty.'')
                (emit (Prompt ''Enter task description: '') (show_menu s))) rest"
  by (simp add: menu_iter_def add_dialog_def Let_def)

text \<open>C27: option 1 with a due date \<open>validate_date\<close> rejects prints
  \<open>Error: \<close> and the reason, adds nothing and saves nothing, and goes back to the
  menu after the four lines it read (the \<open>continue\<close> of line 134).\<close>

theorem menu_invalid_date:
  "py_strip c = ''1'' \<Longrightarrow> py_strip d \<noteq> [] \<Longrightarrow> py_strip u \<noteq> [] \<Longrightarrow>
   validate_date (date_of now) (py_strip u) = Inl err \<Longrightarrow>
   \<exists>s'. menu_iter now s (c # d # g # u # rest) = Continue s' rest
        \<and> tasks s' = tasks s \<and> disk s' = disk s \<and> last (out s') = Text (''Error: '' @ date_error_msg err)"
  by (simp add: menu_iter_def add_dialog_def show_menu_def Let_def)

text \<open>C28: option 1 with a blank category and no due date adds the task in
  category \<open>General\<close> (the \<open>or "General"\<close> of line 128), with the stripped
  description.\<close>

theorem menu_category_default:
  "py_strip c = ''1'' \<Longrightarrow> py_strip d \<noteq> [] \<Longrightarrow> py_strip g = [] \<Longrightarrow> py_strip u = [] \<Longrightarrow>
   \<exists>s'. menu_iter now s (c # d # g # u # rest) = Continue s' rest
        \<and> tasks s' = tasks s @ [new_task now (tasks s) (py_strip d) ''General'' None]"
  by (simp add: menu_iter_def add_dialog_def show_menu_def Let_def add_task_def)

text \<open>C29: options 2 and 3 with an id that \<open>int()\<close> rejects print the numeric-id
  error and go back to the menu; no task is marked or deleted and nothing is saved.\<close>

theorem menu_invalid_id:
  "py_strip c \<in> {''2'', ''3''} \<Longrightarrow> py_int l = None \<Longrightarrow>
   \<exists>s'. menu_iter now s (c # l # rest) = Continue s' rest
        \<and> tasks s' = tasks s \<and> disk s' = disk s \<and> last (out s') = Text ''Error: Please enter a valid numeric ID.''"
  by (auto simp: menu_iter_def id_dialog_def show_menu_def Let_def)

text \<open>C30: option 6 ends the program at once with the farewell, whatever input
  is left, and leaves the list and the file as they were.\<close>

theorem menu_exit:
  "py_strip l = ''6'' \<Longrightarrow>
   main_loop now s (l # rest) = (emit (Text ''Thank you for using Task Manager by Zeshan Noor.'') (show_menu s), Exited)"
  by (simp add: main_loop.simps menu_iter_def Let_def)

text \<open>C31: when standard input is exhausted where the menu reads its choice,
  \<open>input()\<close> raises \<open>EOFError\<close>, which no handler of \<open>main\<close> catches: the
  program ends with the exception after printing the menu, not by option 6.\<close>

theorem main_loop_eof: "main_loop now s [] = (show_menu s, Raised EOFError)"
  by (simp add: main_loop.simps menu_iter_def)

end
