(* ===== verification/Session.thy ===== *)
theory Session
  imports Menu
begin

text \<open>
  Whole sessions of \<open>main\<close> (\<open>src/todo_app.py\<close>, lines 103--167) against the
  store interface of \<open>Store\<close>.

  The lemmas show that a pass either only prints or prints and makes one validated
  call of the store interface (\<open>moves\<close>, \<open>menu_iter_moves\<close>), that the loop ends
  in a state it reached by such passes (\<open>menu_reach\<close>, \<open>main_loop_reach\<close>), and
  from there the invariant principle \<open>main_loop_inv\<close>: a property every validated
  \<open>store_step\<close> and all printing keep holds when the program ends. The claims
  apply it (refinement of the store interface, no \<open>ValueError\<close>, persistence) and
  describe each branch of the dialogs.
\<close>

section \<open>What a pass does to the store\<close>

text \<open>A pass of the loop either only prints, or prints and makes one step of the
  store interface with a due date \<open>validate_date\<close> returned: \<open>moves today s s'\<close>.
  \<open>menu_reach now s0 inp0 s inp\<close> holds of the states and remaining inputs the loop
  passes through from \<open>s0\<close> and \<open>inp0\<close>.\<close>

inductive moves :: "date \<Rightarrow> store \<Rightarrow> store \<Rightarrow> bool" for today where
  print: "moves today s (s\<lparr>out := ms\<rparr>)"
| step: "op_validated today op \<Longrightarrow> moves today s (store_step (s\<lparr>out := ms\<rparr>) op)"

inductive menu_reach :: "datetime \<Rightarrow> store \<Rightarrow> string list \<Rightarrow> store \<Rightarrow> string list \<Rightarrow> bool"
  for now s0 inp0 where
  start: "menu_reach now s0 inp0 s0 inp0"
| pass: "menu_reach now s0 inp0 s inp \<Longrightarrow> menu_iter now s inp = Continue s' inp' \<Longrightarrow>
         menu_reach now s0 inp0 s' inp'"

text \<open>Two results of a pass that agree on everything but the file and the terminal:
  the same list, and the same remaining input or the same ending.\<close>

fun same_course :: "menu_res \<Rightarrow> menu_res \<Rightarrow> bool" where
  "same_course (Continue s inp) (Continue t inp') \<longleftrightarrow> tasks s = tasks t \<and> inp = inp'"
| "same_course (Stop s e) (Stop t e') \<longleftrightarrow> tasks s = tasks t \<and> e = e'"
| "same_course _ _ \<longleftrightarrow> False"

section \<open>Lemmas\<close>

lemma validated_due_str_ok: "validate_date today r = Inr r \<Longrightarrow> due_str_ok (Some r)"
  by (auto simp: due_str_ok_def validate_date_Inr_iff)

lemma store_step_due_ok:
  assumes "\<forall>t \<in> set (tasks s). due_ok t" "op_validated today op"
  shows "\<forall>t \<in> set (tasks (store_step s op)). due_ok t"
proof (cases op)
  case (AddOp now d c due)
  with assms have "due_str_ok due"
    by (cases due) (simp add: due_str_ok_def, simp add: validated_due_str_ok)
  with assms AddOp show ?thesis
    by (auto simp: add_task_def new_task_def due_ok_def)
next
  case (CompleteOp tid)
  show ?thesis
  proof (cases "find_idx (has_id tid) (tasks s)")
    case (Some i)
    then have "i < length (tasks s)" by (auto dest: find_idx_Some)
    with assms Some CompleteOp show ?thesis
      by (auto simp: mark_complete_def due_ok_def dest!: set_update_subset_insert [THEN subsetD])
  qed (use assms CompleteOp in \<open>simp add: mark_complete_def emit_def\<close>)
next
  case (DeleteOp tid)
  show ?thesis
  proof (cases "find_idx (has_id tid) (tasks s)")
    case (Some i)
    then obtain ys x zs where "tasks s = ys @ x # zs" "length ys = i" by (rule find_idx_SomeE)
    with assms Some DeleteOp show ?thesis
      by (auto simp: delete_task_def py_pop_def nth_append)
  qed (use assms DeleteOp in \<open>simp add: delete_task_def emit_def\<close>)
qed

lemma store_run_due_ok:
  "\<forall>t \<in> set (tasks s). due_ok t \<Longrightarrow> \<forall>op \<in> set ops. op_validated today op
     \<Longrightarrow> \<forall>t \<in> set (tasks (store_run s ops)). due_ok t"
proof (induction ops arbitrary: s)
  case Nil
  then show ?case by simp
next
  case (Cons op ops)
  from Cons.prems have "\<forall>t \<in> set (tasks (store_step s op)). due_ok t"
    by (intro store_step_due_ok [where today = today]) auto
  with Cons show ?case by simp
qed

inductive_cases moves_cases: "moves today s s'"

lemma moves_add: "op_validated today (AddOp now d c due) \<Longrightarrow> moves today s (add_task now d c due (s\<lparr>out := ms\<rparr>))"
  using moves.step [of today "AddOp now d c due" s ms] by simp

lemma moves_add_validated:
  "validate_date today u = Inr r \<Longrightarrow> moves today s (add_task now d c (Some r) (s\<lparr>out := ms\<rparr>))"
  by (rule moves_add) (simp add: validate_date_fixed)

lemma moves_mark: "moves today s (mark_complete tid (s\<lparr>out := ms\<rparr>))"
  using moves.step [of today "CompleteOp tid" s ms] by simp

lemma moves_delete: "moves today s (delete_task tid (s\<lparr>out := ms\<rparr>))"
  using moves.step [of today "DeleteOp tid" s ms] by simp

lemma moves_print_left: "moves today (s\<lparr>out := ms\<rparr>) s' \<Longrightarrow> moves today s s'"
  by (erule moves_cases) (simp_all add: moves.print moves.step)

lemma add_dialog_moves: "add_dialog now s inp = Continue s' inp' \<Longrightarrow> moves (date_of now) s s'"
  by (auto simp: add_dialog_def Let_def intro: moves.print moves_add moves_add_validated
      split: list.splits if_splits sum.splits)

lemma id_dialog_moves:
  "(\<And>tid ms. moves today s (f tid (s\<lparr>out := ms\<rparr>))) \<Longrightarrow> id_dialog prompt f s inp = Continue s' inp' \<Longrightarrow>
   moves today s s'"
  by (auto simp: id_dialog_def Let_def intro: moves.print split: list.splits option.splits)

lemma show_tasks_moves: "show_tasks today b s inp = Continue s' inp' \<Longrightarrow> moves today' s s'"
  by (auto simp: show_tasks_def intro: moves.print split: prod.splits option.splits)

lemma print_self [simp]: "\<exists>ms. s = s\<lparr>out := ms\<rparr>"
  by (rule exI [of _ "out s"]) simp

lemma add_dialog_Stop: "add_dialog now s inp = Stop s' e \<Longrightarrow> (\<exists>ms. s' = s\<lparr>out := ms\<rparr>) \<and> e = Raised EOFError"
  by (auto simp: add_dialog_def Let_def split: list.splits if_splits sum.splits)

lemma id_dialog_Stop: "id_dialog prompt f s inp = Stop s' e \<Longrightarrow> (\<exists>ms. s' = s\<lparr>out := ms\<rparr>) \<and> e = Raised EOFError"
  by (auto simp: id_dialog_def Let_def split: list.splits option.splits)

lemma show_tasks_Stop:
  "show_tasks today b s inp = Stop s' e \<Longrightarrow>
   (\<exists>ms. s' = s\<lparr>out := ms\<rparr>) \<and> (\<exists>x. e = Raised x \<and> snd (display_tasks today b (tasks s)) = Some x)"
  by (auto simp: show_tasks_def split: prod.splits option.splits)

lemma menu_iter_moves: "menu_iter now s inp = Continue s' inp' \<Longrightarrow> moves (date_of now) s s'"
proof -
  assume h: "menu_iter now s inp = Continue s' inp'"
  have "moves (date_of now) (show_menu s) s'"
    using h by (auto simp: menu_iter_def Let_def split: list.splits if_splits
        intro: add_dialog_moves id_dialog_moves moves_mark moves_delete show_tasks_moves moves.print)
  then show ?thesis by (metis moves_print_left show_menu_out)
qed

lemma menu_iter_Stop:
  "menu_iter now s inp = Stop s' e \<Longrightarrow>
   (\<exists>ms. s' = s\<lparr>out := ms\<rparr>)
   \<and> (\<forall>x. e = Raised x \<longrightarrow> x = EOFError \<or> (\<exists>b. snd (display_tasks (date_of now) b (tasks s)) = Some x))"
proof -
  assume h: "menu_iter now s inp = Stop s' e"
  have t: "tasks (show_menu s) = tasks s" by (simp add: show_menu_def)
  have "(\<exists>ms. s' = (show_menu s)\<lparr>out := ms\<rparr>)
     \<and> (\<forall>x. e = Raised x \<longrightarrow> x = EOFError \<or> (\<exists>b. snd (display_tasks (date_of now) b (tasks (show_menu s))) = Some x))"
    using h by (auto simp: menu_iter_def Let_def split: list.splits if_splits
        dest!: add_dialog_Stop id_dialog_Stop show_tasks_Stop)
  then show ?thesis by (simp add: t show_menu_out)
qed

lemma main_loop_reach_from:
  "menu_reach now s0 inp0 t tinp \<Longrightarrow> main_loop now t tinp = (s', e) \<Longrightarrow>
   \<exists>u uinp. menu_reach now s0 inp0 u uinp \<and> menu_iter now u uinp = Stop s' e"
proof (induction "length tinp" arbitrary: t tinp rule: less_induct)
  case less
  show ?case
  proof (cases "menu_iter now t tinp")
    case (Continue t' tinp')
    have "menu_reach now s0 inp0 t' tinp'" using less.prems(1) Continue by (rule menu_reach.pass)
    moreover have "length tinp' < length tinp" using Continue by (rule menu_iter_len)
    moreover have "main_loop now t' tinp' = (s', e)"
      using less.prems(2) Continue by (simp add: main_loop.simps)
    ultimately show ?thesis using less.hyps by blast
  next
    case (Stop t' e')
    with less.prems show ?thesis by (auto simp: main_loop.simps)
  qed
qed

lemma main_loop_reach:
  "main_loop now s inp = (s', e) \<Longrightarrow> \<exists>u uinp. menu_reach now s inp u uinp \<and> menu_iter now u uinp = Stop s' e"
  using main_loop_reach_from menu_reach.start by blast

text \<open>The invariant principle: what the store interface and printing keep, the
  loop keeps.\<close>

lemma moves_inv:
  assumes "moves today s s'" "P s"
    and "\<And>s ms. P s \<Longrightarrow> P (s\<lparr>out := ms\<rparr>)"
    and "\<And>s op. P s \<Longrightarrow> op_validated today op \<Longrightarrow> P (store_step s op)"
  shows "P s'"
  using assms by (cases rule: moves.cases) blast+

lemma menu_reach_inv:
  assumes "menu_reach now s0 inp0 s inp" "P s0"
    and "\<And>s ms. P s \<Longrightarrow> P (s\<lparr>out := ms\<rparr>)"
    and "\<And>s op. P s \<Longrightarrow> op_validated (date_of now) op \<Longrightarrow> P (store_step s op)"
  shows "P s"
  using assms(1,2)
proof (induction rule: menu_reach.induct)
  case start
  then show ?case .
next
  case (pass s inp s' inp')
  from pass.hyps(2) have "moves (date_of now) s s'" by (rule menu_iter_moves)
  then show ?case using pass.IH [OF pass.prems] assms(3,4) by (rule moves_inv)
qed

lemma main_loop_inv:
  assumes "P s"
    and "\<And>s ms. P s \<Longrightarrow> P (s\<lparr>out := ms\<rparr>)"
    and "\<And>s op. P s \<Longrightarrow> op_validated (date_of now) op \<Longrightarrow> P (store_step s op)"
  shows "P (fst (main_loop now s inp))"
proof -
  obtain s' e where r: "main_loop now s inp = (s', e)" by (cases "main_loop now s inp")
  then obtain u uinp where "menu_reach now s inp u uinp" "menu_iter now u uinp = Stop s' e"
    using main_loop_reach by blast
  moreover from this(1) have "P u" using assms by (rule menu_reach_inv)
  ultimately show ?thesis using r assms(2) by (auto dest: menu_iter_Stop)
qed

text \<open>The memory (list and file) after a store operation depends on the memory
  before it only.\<close>

lemma commit_disk: "disk (commit ts ms s) = fst (save_tasks ts (disk s))"
  by (simp add: commit_def split: prod.split)

lemma store_step_same_mem:
  "tasks s = tasks t \<Longrightarrow> disk s = disk t \<Longrightarrow>
   tasks (store_step s op) = tasks (store_step t op) \<and> disk (store_step s op) = disk (store_step t op)"
  by (cases op) (simp_all add: add_task_def mark_complete_def delete_task_def commit_disk emit_def
      split: option.split prod.split)

lemma store_run_same_mem:
  "tasks s = tasks t \<Longrightarrow> disk s = disk t \<Longrightarrow>
   tasks (store_run s ops) = tasks (store_run t ops) \<and> disk (store_run s ops) = disk (store_run t ops)"
proof (induction ops arbitrary: s t)
  case Nil
  then show ?case by simp
next
  case (Cons op ops)
  from store_step_same_mem [OF Cons.prems, of op]
  have "tasks (store_step s op) = tasks (store_step t op)" "disk (store_step s op) = disk (store_step t op)"
    by simp_all
  then have "tasks (store_run (store_step s op) ops) = tasks (store_run (store_step t op) ops)
    \<and> disk (store_run (store_step s op) ops) = disk (store_run (store_step t op) ops)"
    by (rule Cons.IH)
  then show ?case by simp
qed

lemma store_run_append: "store_run s (xs @ ys) = store_run (store_run s xs) ys"
  by (induction xs arbitrary: s) simp_all

lemma moves_store_run:
  "moves today s s' \<Longrightarrow>
   \<exists>ops. (\<forall>op \<in> set ops. op_validated today op) \<and> tasks s' = tasks (store_run s ops) \<and> disk s' = disk (store_run s ops)"
proof (induction rule: moves.induct)
  case (print s ms)
  show ?case by (rule exI [of _ "[]"]) simp
next
  case (step op s ms)
  have "tasks (s\<lparr>out := ms\<rparr>) = tasks s" "disk (s\<lparr>out := ms\<rparr>) = disk s" by simp_all
  from store_step_same_mem [OF this, of op] step show ?case by (intro exI [of _ "[op]"]) simp
qed

lemma menu_reach_store_run:
  "menu_reach now s0 inp0 s inp \<Longrightarrow>
   \<exists>ops. (\<forall>op \<in> set ops. op_validated (date_of now) op)
         \<and> tasks s = tasks (store_run s0 ops) \<and> disk s = disk (store_run s0 ops)"
proof (induction rule: menu_reach.induct)
  case start
  show ?case by (rule exI [of _ "[]"]) simp
next
  case (pass s inp s' inp')
  then obtain ops where ops: "\<forall>op \<in> set ops. op_validated (date_of now) op"
    "tasks s = tasks (store_run s0 ops)" "disk s = disk (store_run s0 ops)" by blast
  from pass.hyps(2) have "moves (date_of now) s s'" by (rule menu_iter_moves)
  then obtain ops' where ops': "\<forall>op \<in> set ops'. op_validated (date_of now) op"
    "tasks s' = tasks (store_run s ops')" "disk s' = disk (store_run s ops')"
    using moves_store_run by blast
  have "tasks s' = tasks (store_run s0 (ops @ ops'))" "disk s' = disk (store_run s0 (ops @ ops'))"
    using ops' store_run_same_mem [OF ops(2,3), of ops'] by (simp_all add: store_run_append)
  with ops(1) ops'(1) show ?case by (intro exI [of _ "ops @ ops'"]) auto
qed

section \<open>The course of a session does not depend on the file\<close>

text \<open>The program reads the file once, at start: what each pass does to the list, and
  whether the loop goes on, depends on the list and the input, not on the file or on
  what was printed.\<close>

lemma store_ops_same_tasks:
  assumes "tasks s = tasks t"
  shows "tasks (add_task now d c due s) = tasks (add_task now d c due t)"
    "tasks (mark_complete tid s) = tasks (mark_complete tid t)"
    "tasks (delete_task tid s) = tasks (delete_task tid t)"
  using assms by (simp_all add: add_task_def mark_complete_def delete_task_def emit_def
      split: option.split prod.split)

lemma id_dialog_same_course:
  assumes "tasks s = tasks t" "\<And>tid s t. tasks s = tasks t \<Longrightarrow> tasks (op tid s) = tasks (op tid t)"
  shows "same_course (id_dialog p op s inp) (id_dialog p op t inp)"
proof (cases inp)
  case (Cons l inp2)
  have "tasks (op tid (emit (Prompt p) s)) = tasks (op tid (emit (Prompt p) t))" for tid
    using assms by (intro assms(2)) (simp add: emit_def)
  with assms(1) Cons show ?thesis by (simp add: id_dialog_def emit_def Let_def split: option.split)
qed (use assms in \<open>simp add: id_dialog_def emit_def Let_def\<close>)

lemma show_tasks_same_course:
  "tasks s = tasks t \<Longrightarrow> same_course (show_tasks today b s inp) (show_tasks today b t inp)"
  by (simp add: show_tasks_def split: prod.split option.split)

lemma add_dialog_same_course:
  "tasks s = tasks t \<Longrightarrow> same_course (add_dialog now s inp) (add_dialog now t inp)"
  by (simp add: add_dialog_def Let_def emit_def add_task_def split: list.split sum.split)

lemma menu_iter_same_course:
  assumes "tasks s = tasks t"
  shows "same_course (menu_iter now s inp) (menu_iter now t inp)"
proof (cases inp)
  case (Cons line inp1)
  have m: "tasks (show_menu s) = tasks (show_menu t)" using assms by (simp add: show_menu_def)
  have o: "\<And>tid s t. tasks s = tasks t \<Longrightarrow> tasks (mark_complete tid s) = tasks (mark_complete tid t)"
    "\<And>tid s t. tasks s = tasks t \<Longrightarrow> tasks (delete_task tid s) = tasks (delete_task tid t)"
    by (rule store_ops_same_tasks; assumption)+
  note a = add_dialog_same_course [OF m, where inp = inp1] show_tasks_same_course [OF m, where inp = inp1]
    id_dialog_same_course [OF m o(1), where inp = inp1] id_dialog_same_course [OF m o(2), where inp = inp1]
  show ?thesis
    using Cons m by (simp add: menu_iter_def Let_def a del: same_course.simps) (simp add: emit_def)
qed (use assms in \<open>simp add: menu_iter_def show_menu_def\<close>)

lemma main_loop_same_course:
  "tasks s = tasks t \<Longrightarrow>
   tasks (fst (main_loop now s inp)) = tasks (fst (main_loop now t inp))
   \<and> snd (main_loop now s inp) = snd (main_loop now t inp)"
proof (induction now s inp arbitrary: t rule: main_loop.induct)
  case (1 now s inp)
  have c: "same_course (menu_iter now s inp) (menu_iter now t inp)"
    using "1.prems" by (rule menu_iter_same_course)
  show ?case
  proof (cases "menu_iter now s inp")
    case (Continue s' inp')
    with c obtain t' where t: "menu_iter now t inp = Continue t' inp'" "tasks s' = tasks t'"
      by (cases "menu_iter now t inp") auto
    from "1.IH" [OF Continue t(2)] Continue t(1) show ?thesis
      by (simp add: main_loop.simps [of now s inp] main_loop.simps [of now t inp])
  next
    case (Stop s' e)
    with c obtain t' where "menu_iter now t inp = Stop t' e" "tasks s' = tasks t'"
      by (cases "menu_iter now t inp") auto
    with Stop show ?thesis
      by (simp add: main_loop.simps [of now s inp] main_loop.simps [of now t inp])
  qed
qed

text \<open>C23: the program refines the store interface: whatever the input, the list
  and the file \<open>main_loop\<close> ends with are those of a run of \<open>add_task\<close>,
  \<open>mark_complete\<close> and \<open>delete_task\<close> calls from the start state, each due date
  in it one \<open>validate_date\<close> returned on the session's date; everything else the
  loop does only prints.\<close>

theorem main_loop_refines_store:
  "\<exists>ops. (\<forall>op \<in> set ops. op_validated (date_of now) op)
         \<and> tasks (fst (main_loop now s inp)) = tasks (store_run s ops)
         \<and> disk (fst (main_loop now s inp)) = disk (store_run s ops)"
proof -
  obtain s' e where r: "main_loop now s inp = (s', e)" by (cases "main_loop now s inp")
  then obtain u uinp where u: "menu_reach now s inp u uinp" "menu_iter now u uinp = Stop s' e"
    using main_loop_reach by blast
  from u(2) obtain ms where "s' = u\<lparr>out := ms\<rparr>" by (auto dest: menu_iter_Stop)
  with menu_reach_store_run [OF u(1)] r show ?thesis by simp
qed

text \<open>C24: when every due date of the loaded list can be read by \<open>strptime\<close>, the
  program never ends with the \<open>ValueError\<close> of \<open>display_tasks\<close>, whatever the
  input: options 4 and 5 only ever list tasks whose due dates the menu validated or
  that were loaded.\<close>

theorem main_loop_no_value_error:
  "\<forall>t \<in> set (tasks s). due_ok t \<Longrightarrow> snd (main_loop now s inp) \<noteq> Raised ValueError"
proof
  assume ok: "\<forall>t \<in> set (tasks s). due_ok t" and e: "snd (main_loop now s inp) = Raised ValueError"
  obtain s' where r: "main_loop now s inp = (s', Raised ValueError)"
    using e by (cases "main_loop now s inp") auto
  then obtain u uinp where u: "menu_reach now s inp u uinp" "menu_iter now u uinp = Stop s' (Raised ValueError)"
    using main_loop_reach by blast
  have "\<forall>t \<in> set (tasks u). due_ok t"
  proof (rule menu_reach_inv [where P = "\<lambda>s. \<forall>t \<in> set (tasks s). due_ok t", OF u(1) ok])
    show "\<forall>t \<in> set (tasks (s\<lparr>out := ms\<rparr>)). due_ok t" if "\<forall>t \<in> set (tasks s). due_ok t" for s ms
      using that by simp
    show "\<forall>t \<in> set (tasks (store_step s op)). due_ok t"
      if "\<forall>t \<in> set (tasks s). due_ok t" "op_validated (date_of now) op" for s op
      using that by (rule store_step_due_ok)
  qed
  then have "snd (display_tasks (date_of now) b (tasks u)) = None" for b
    by (rule display_tasks_no_exc)
  with u(2) show False by (auto dest: menu_iter_Stop)
qed

text \<open>C25: while the file can be written and read, the file a session leaves behind
  loads back, at the next start, to the list the session ended with, whatever the
  input: every change of the list was saved, and nothing else touched the file.\<close>

theorem main_persists:
  assumes "write_error d = None" "read_error d = None" "main now d inp = Some (s, e)"
  shows "tasks_of_json (fst (load_tasks (disk s))) = Some (tasks s)"
proof -
  from assms(3) obtain v ms ts where l: "load_tasks d = (v, ms)" "tasks_of_json v = Some ts"
    and r: "main_loop now \<lparr>tasks = ts, disk = d, out = ms @ [Text banner]\<rparr> inp = (s, e)"
    by (auto simp: main_def split: prod.splits option.splits)
  let ?P = "\<lambda>s. write_error (disk s) = None \<and> read_error (disk s) = None \<and> loads_back s"
  have "?P \<lparr>tasks = ts, disk = d, out = ms @ [Text banner]\<rparr>"
    using assms(1,2) l by (simp add: loads_back_def)
  then have "?P (fst (main_loop now \<lparr>tasks = ts, disk = d, out = ms @ [Text banner]\<rparr> inp))"
    by (rule main_loop_inv) (auto intro: store_step_loads_back)
  with r show ?thesis by (simp add: loads_back_def)
qed

lemma show_choice_pass:
  assumes "\<forall>t \<in> set (tasks s). due_ok t" "c \<in> {''4'', ''5''}"
  shows "\<exists>ms. menu_iter now s (c # inp) = Continue (s\<lparr>out := ms\<rparr>) inp"
proof -
  obtain ms e where d: "display_tasks (date_of now) (c = ''5'') (tasks s) = (ms, e)"
    by (cases "display_tasks (date_of now) (c = ''5'') (tasks s)")
  moreover have "e = None"
    using display_tasks_no_exc [OF assms(1), of "date_of now" "c = ''5''"] d by simp
  ultimately show ?thesis
    using assms(2) by (auto simp: menu_iter_def show_tasks_def show_menu_def py_strip_def is_py_space_def)
qed

lemma store_step_ids_pos:
  "\<forall>t \<in> set (tasks s). 0 < task_id t \<Longrightarrow> \<forall>t \<in> set (tasks (store_step s op)). 0 < task_id t"
proof (cases op)
  case (CompleteOp tid)
  assume h: "\<forall>t \<in> set (tasks s). 0 < task_id t"
  show ?thesis
  proof (cases "find_idx (has_id tid) (tasks s)")
    case (Some i)
    then have "i < length (tasks s)" by (auto dest: find_idx_Some)
    with h Some CompleteOp show ?thesis
      by (auto simp: mark_complete_def dest!: set_update_subset_insert [THEN subsetD])
  qed (use h CompleteOp in \<open>simp add: mark_complete_def emit_def\<close>)
next
  case (DeleteOp tid)
  assume h: "\<forall>t \<in> set (tasks s). 0 < task_id t"
  show ?thesis
  proof (cases "find_idx (has_id tid) (tasks s)")
    case (Some i)
    then obtain ys x zs where "tasks s = ys @ x # zs" "length ys = i" by (rule find_idx_SomeE)
    with h Some DeleteOp show ?thesis by (auto simp: delete_task_def py_pop_def nth_append)
  qed (use h DeleteOp in \<open>simp add: delete_task_def emit_def\<close>)
qed (auto simp: add_task_def new_task_def)

text \<open>C33: whatever the stored tasks, as long as their due dates parse, any number of
  listings (options 4 and 5) followed by option 6 ends the program normally: the
  loop does not get stuck and no listing aborts it.\<close>

theorem main_loop_views_then_exit:
  "\<forall>t \<in> set (tasks s). due_ok t \<Longrightarrow> set cs \<subseteq> {''4'', ''5''} \<Longrightarrow>
   snd (main_loop now s (cs @ ''6'' # rest)) = Exited"
proof (induction cs arbitrary: s)
  case Nil
  then show ?case by (simp add: main_loop.simps menu_iter_def py_strip_def is_py_space_def Let_def)
next
  case (Cons c cs)
  then obtain ms where "menu_iter now s (c # cs @ ''6'' # rest) = Continue (s\<lparr>out := ms\<rparr>) (cs @ ''6'' # rest)"
    using show_choice_pass [of s c now "cs @ ''6'' # rest"] by auto
  moreover have "snd (main_loop now (s\<lparr>out := ms\<rparr>) (cs @ ''6'' # rest)) = Exited"
    using Cons by simp
  ultimately show ?case by (simp add: main_loop.simps)
qed

text \<open>C34: every task the program holds has a positive id: loaded ids that are
  positive stay so over a whole session, since \<open>add_task\<close> numbers from
  \<open>len(tasks) + 1\<close> and completion and deletion keep the others.\<close>

theorem main_loop_ids_positive:
  "\<forall>t \<in> set (tasks s). 0 < task_id t \<Longrightarrow> \<forall>t \<in> set (tasks (fst (main_loop now s inp))). 0 < task_id t"
  by (rule main_loop_inv [where P = "\<lambda>s. \<forall>t \<in> set (tasks s). 0 < task_id t"])
     (simp_all add: store_step_ids_pos)

text \<open>C21: a file \<open>json.load\<close> rejects loads as the empty list with the
  invalid-JSON message, and the whole session then goes as it goes with no file at
  all: the same final list and the same ending, whatever the input. The tasks the
  file held play no part in the session.\<close>

theorem load_malformed_file:
  assumes "content d = Some str" "read_error d = None" "json_loads str = None"
  shows "load_tasks d = (JArr [], [InvalidJsonMsg])
         \<and> main now d inp \<noteq> None
         \<and> map_option (\<lambda>(s, e). (tasks s, e)) (main now d inp)
           = map_option (\<lambda>(s, e). (tasks s, e)) (main now (d\<lparr>content := None\<rparr>) inp)"
proof -
  have l: "load_tasks d = (JArr [], [InvalidJsonMsg])" using assms by (simp add: load_tasks_def)
  have l0: "load_tasks (d\<lparr>content := None\<rparr>) = (JArr [], [])" by (simp add: load_tasks_def)
  have e: "tasks_of_json (JArr []) = Some []" by simp
  have "tasks (fst (main_loop now \<lparr>tasks = [], disk = d, out = [InvalidJsonMsg, Text banner]\<rparr> inp))
        = tasks (fst (main_loop now \<lparr>tasks = [], disk = d\<lparr>content := None\<rparr>, out = [Text banner]\<rparr> inp))
        \<and> snd (main_loop now \<lparr>tasks = [], disk = d, out = [InvalidJsonMsg, Text banner]\<rparr> inp)
        = snd (main_loop now \<lparr>tasks = [], disk = d\<lparr>content := None\<rparr>, out = [Text banner]\<rparr> inp)"
    by (rule main_loop_same_course) simp
  with l l0 e show ?thesis by (simp add: main_def case_prod_beta)
qed

end
