(* ===== verification/Spec2Isabelle.thy ===== *)
theory Spec2Isabelle
  imports Session
begin

text \<open>
  \<^bold>\<open>A verified model of the Task Manager (src/todo_app.py).\<close>

  \<^bold>\<open>The program.\<close> One Python file keeps a list of task dictionaries in memory,
  persists it to \<open>tasks.json\<close> after every change, and offers a menu: add, mark
  complete, delete, view all, view incomplete, exit. Its parts and their theories:
  \<^item> \<open>Prelude\<close>: the Python built-ins the code relies on: \<open>str.strip\<close>
    (\<open>py_strip\<close>), \<open>str(int)\<close> (\<open>show_int\<close>), \<open>sep.join\<close> (\<open>py_join\<close>), the
    first-match scan of a \<open>for\<close> loop with \<open>return\<close> (\<open>find_idx\<close>), \<open>list.pop\<close>
    (\<open>py_pop\<close>), zero padding of \<open>strftime\<close> (\<open>zpad\<close>), and the collection
    \<open>model_defs\<close> of definitions unfolded to run the model on concrete inputs;
  \<^item> \<open>Dates\<close>: \<open>validate_date\<close> (lines 31--39) and the \<open>datetime\<close> calls it and
    \<open>display_tasks\<close> make. \<open>strptime(s, "%Y-%m-%d")\<close> is \<open>strptime_ymd\<close>, written
    from CPython's compiled regular expression: one matcher per alternative, ordered
    choice \<open>orelse\<close>, the check that nothing is left over, the calendar check of
    \<open>datetime.date\<close>; \<open>strftime\<close> is \<open>strftime_ymd\<close>/\<open>strftime_ymd_hms\<close>;
  \<^item> \<open>Json\<close>: the JSON documents and \<open>json.dump(tasks, file, indent=4)\<close>
    (\<open>json_dumps\<close>, with \<open>ensure_ascii\<close> escaping), from Python's documented
    encoder and the file format of the specification;
  \<^item> \<open>Json_Decode\<close>: \<open>json.load\<close> (\<open>json_loads\<close>), the recursive-descent
    scanner of Python's \<open>json.decoder\<close> and \<open>json.scanner\<close> written from their
    documented behaviour, with fuel;
  \<^item> \<open>Tasks\<close>: the task dictionary of \<open>add_task\<close> as the record \<open>task\<close> and its
    JSON encoding \<open>json_of_task\<close>, with the decoder \<open>task_of_json\<close>;
  \<^item> \<open>Console\<close>: every \<open>print\<close> and \<open>input\<close> prompt as a constructor of
    \<open>msg\<close>, with the exact text in \<open>render\<close>;
  \<^item> \<open>Store\<close>: the state \<open>store\<close> (the task list \<open>main\<close> holds, the file
    \<open>disk\<close>, the terminal \<open>out\<close>); \<open>save_tasks\<close> (23--29), \<open>add_task\<close> (41--57),
    \<open>mark_complete\<close> (59--70), \<open>delete_task\<close> (72--83) and \<open>display_tasks\<close>
    (85--101); the datatype \<open>store_op\<close> of the three mutating calls with
    \<open>store_step\<close> and \<open>store_run\<close>, the interface through which the menu loop
    drives the store;
  \<^item> \<open>Storage\<close>: \<open>load_tasks\<close> (9--21) over the same \<open>disk\<close>, with its three
    fallbacks to the empty list, and \<open>synced\<close>, the file holding the list in memory;
  \<^item> \<open>Menu\<close>: \<open>main\<close> (103--167): Python's \<open>int()\<close> on a string
    (\<open>py_int\<close>), the menu, one pass of the loop (\<open>menu_iter\<close>, with the dialogs
    \<open>add_dialog\<close>, \<open>id_dialog\<close>, \<open>show_tasks\<close>), the loop \<open>main_loop\<close> over the
    lines of standard input, and \<open>main\<close>, loading then looping;
  \<^item> \<open>Session\<close>: whole sessions of \<open>main\<close>. The menu drives the store only
    through \<open>store_op\<close>: the step relation \<open>moves\<close> says what a pass may do to
    the store (print, or print and make one validated \<open>store_step\<close>), the
    inductive \<open>menu_reach\<close> which states the loop passes through;
  \<^item> this theory: example data, properties spanning the components, and witnesses.

  \<^bold>\<open>Correspondence.\<close> Python mutates the list in place; each operation here takes
  the \<open>store\<close> and returns the new one, with the list, the file content (only
  \<open>save_tasks\<close> writes it) and the messages appended. Exceptions the code catches are
  message constructors; exceptions that escape (\<open>ValueError\<close> from \<open>strptime\<close> in
  \<open>display_tasks\<close>) are \<open>py_exc\<close> values. Clock readings (\<open>datetime.now()\<close>) are
  arguments; a session reads the clock as one instant. Standard input is the list of
  lines still to read; running out of it is \<open>EOFError\<close>. Characters are Latin-1 code points (Python's \<open>str\<close> restricted to
  0..255); the check mark is written as its UTF-8 bytes. All definitions are
  executable: the theorems about concrete runs are proved by \<open>simp\<close>.

  \<^bold>\<open>Properties.\<close> The store operations on every branch (C1--C5: found, not found,
  append, save); ids (C6: \<open>len(tasks) + 1\<close> hands out an id still in use once a task
  is deleted; C7: unique while nothing is deleted); completion is never reverted over
  any run (C8: all tasks but the ones added come from the initial list in order,
  unchanged or marked complete); idempotent completion (C9); the in-memory list
  surviving a failed save (C10); \<open>validate_date\<close> (C11--C14: acceptance,
  normalisation as a fixed point, error classes, the \<open>strftime\<close>/\<open>strptime\<close>
  round trip); the overdue annotation and the listing (C15--C17); the lenient date
  syntax, one-digit months and days accepted (C18); display safety over runs (C19);
  saving then loading (C20); a file \<open>json.load\<close> rejects, after which the session
  goes as with no file (C21); the file following memory over every run (C22). For the
  whole program: the menu refines the store interface (C23), never crashes on a
  listing when the loaded dates parse (C24), leaves a file that loads back to its
  final list (C25), handles blank descriptions, rejected dates, blank categories and
  rejected ids (C26--C29), exits on option 6 (C30), and ends with an uncaught
  \<open>EOFError\<close> when input runs out (C31); \<open>created_at\<close> has the fixed layout
  \<open>YYYY-MM-DD HH:MM:SS\<close> (C32); listings then option 6 always end the program
  normally (C33); ids stay positive over any session (C34). Each theory proves the
  lemmas its claims rest on: consumption and fuel sufficiency of the decoder, the
  escape round trip, decoding the encoder's output at every nesting level
  (\<open>json_loads_dumps\<close>: \<open>json.load\<close> inverts \<open>json.dump\<close> on documents without
  floats and with distinct keys), preservation of \<open>synced\<close> by every operation,
  and in \<open>Session\<close> the invariant principle \<open>main_loop_inv\<close> (what every validated
  store step and every print keep, the whole session keeps) and
  \<open>main_loop_same_course\<close> (the list and the ending of a session depend on the
  list and the input, not on the file). Two example runs of the specification's
  scenario, on the store and through \<open>main\<close>, close the theory.

  \<^bold>\<open>Findings.\<close> Ids collide after a deletion (C6); the incomplete-only view prints
  nothing, not "No tasks found.", when all tasks are done (C17); \<open>add_task\<close> stores an
  empty category as given, only the menu defaults it (C5, C28); \<open>validate_date\<close>
  accepts \<open>2030-1-5\<close> and \<open>2030-1- 5\<close> (C18); \<open>load_tasks\<close> returns any valid
  JSON document, not only a list of tasks, and the program then fails on it later; at
  the end of standard input the program aborts with \<open>EOFError\<close> (C31), which the
  specification rules out.

  \<^bold>\<open>Fuel.\<close> Only the JSON decoder is not structurally recursive: \<open>parse_value\<close>
  and its array and object loops take fuel, and \<open>json_loads\<close> gives \<open>2 n + 1\<close> for
  an input of \<open>n\<close> characters. That is enough (\<open>json_loads_fuel_enough\<close>): every value consumes a
  character before the one call that spends fuel without consuming, from an
  element to the next. The decoder is therefore total, and running out of fuel
  (\<open>PFuel\<close>) never happens, so \<open>None\<close> from \<open>json_loads\<close> is a decoding error.

  The menu loop is a \<^theory_text>\<open>function\<close> whose termination measure is the number of
  input lines left: every pass reads the choice first.

  \<^bold>\<open>Not modelled.\<close> The \<open>except Exception\<close> handlers of \<open>add_task\<close>,
  \<open>mark_complete\<close> and \<open>delete_task\<close> catch errors that only a list of
  malformed dictionaries raises; the model's tasks are typed records, so a file that
  is valid JSON but not a list of tasks is outside the model (\<open>main\<close> is
  \<open>None\<close> there). Also outside it: \<open>KeyboardInterrupt\<close>, the clock advancing
  during a session, characters beyond code point
  255 (a \<open>\u\<close> escape above \<open>00FF\<close> is read as an error), the \<open>RecursionError\<close>
  of \<open>json.load\<close> on very deep nesting, the encoding of the file (its content is
  the decoded text), and floats, which the program never writes. \<open>zpad 4\<close> writes
  \<open>%Y\<close> with four digits, as Python documents; the C library of some platforms
  prints years below 1000 unpadded, which the program never meets (such a due date
  is in the past, and the clock is not set before year 1000). \<open>int()\<close> skips only
  the white space \<open>int_strip\<close> names, not all that \<open>str.strip()\<close> removes.
\<close>

section \<open>Example data\<close>

definition empty_disk :: disk where
  "empty_disk = \<lparr>content = None, read_error = None, write_error = None\<rparr>"

definition empty_store :: store where
  "empty_store = \<lparr>tasks = [], disk = empty_disk, out = []\<rparr>"

definition ex_now :: datetime where
  "ex_now = \<lparr>year = 2026, month = 11, day = 9, hour = 10, minute = 0, second = 0\<rparr>"

definition ex_today :: date where
  "ex_today = \<lparr>year = 2026, month = 11, day = 9\<rparr>"

definition ex_t1 :: task where
  "ex_t1 = \<lparr>task_id = 1, description = ''Buy milk'', category = ''Personal'', completed = False,
            created_at = ''2026-11-01 08:00:00'', due_date = None\<rparr>"

definition ex_t2 :: task where
  "ex_t2 = \<lparr>task_id = 2, description = ''File report'', category = ''Work'', completed = True,
            created_at = ''2026-11-02 09:30:00'', due_date = Some ''2026-11-08''\<rparr>"

definition ex_t3 :: task where
  "ex_t3 = \<lparr>task_id = 3, description = ''Pay rent'', category = ''General'', completed = False,
            created_at = ''2026-11-03 12:00:00'', due_date = Some ''2026-11-08''\<rparr>"

definition ex_store :: store where
  "ex_store = empty_store\<lparr>tasks := [ex_t1, ex_t2]\<rparr>"

definition ex_locked :: store where
  "ex_locked = ex_store\<lparr>disk := empty_disk\<lparr>write_error := Some ''Permission denied''\<rparr>\<rparr>"

definition ex_synced :: store where
  "ex_synced = ex_store\<lparr>disk := empty_disk\<lparr>content := Some (json_dumps (json_of_tasks [ex_t1, ex_t2]))\<rparr>\<rparr>"

text \<open>A session: add "Buy milk" with a blank category and no due date, mark 1
  complete, delete 1, view all, exit.\<close>

definition ex_session :: "string list" where
  "ex_session = [''1'', ''Buy milk'', '' '', [], ''2'', '' 1'', ''3'', ''1'', ''4'', ''6'']"

text \<open>The messages that report an outcome, without menus, prompts and banners.\<close>

fun is_status :: "msg \<Rightarrow> bool" where
  "is_status (Text _) = False"
| "is_status (Prompt _) = False"
| "is_status _ = True"

lemmas ex_defs = empty_disk_def empty_store_def ex_now_def ex_today_def ex_t1_def ex_t2_def
  ex_t3_def ex_store_def ex_locked_def ex_synced_def ex_session_def

section \<open>Properties across components\<close>

text \<open>C19: if the stored due dates can all be shown, and every due date added later is
  one \<open>validate_date\<close> returned (as \<open>main\<close> ensures), \<open>display_tasks\<close> never raises,
  whatever sequence of adds, completions and deletions ran in between.\<close>

theorem display_never_raises_after_run:
  assumes "\<forall>t \<in> set (tasks s). due_ok t" "\<forall>op \<in> set ops. op_validated today0 op"
  shows "snd (display_tasks today b (tasks (store_run s ops))) = None"
  using display_tasks_no_exc [OF store_run_due_ok [OF assms]] .

text \<open>C22: while the file can be written and read, a store whose file holds its list
  keeps it so over any run of adds, completions and deletions, hits and misses alike,
  and loading the file then gives back the list in memory: every mutation is flushed
  (the specification's lifecycle), and the flush is lossless (C20).\<close>

theorem store_run_persists:
  assumes "write_error (disk s) = None" "read_error (disk s) = None" "synced s"
  shows "load_tasks (disk (store_run s ops)) = (json_of_tasks (tasks (store_run s ops)), [])"
proof -
  have "synced (store_run s ops)" using assms(1,3) by (rule store_run_synced)
  moreover have "read_error (disk (store_run s ops)) = None" using assms(2) by simp
  ultimately show ?thesis by (simp add: load_tasks_synced)
qed

section \<open>Example runs\<close>

text \<open>Example: the scenario of the specification run on the code: adding "Buy milk" with an
  empty category to an empty store gives task 1, incomplete, with the category stored
  as given (empty: \<open>add_task\<close> itself does not default it); marking 1 complete and
  deleting 1 empties the list, and listing then reports "No tasks found.".\<close>

lemma spec_scenario:
  "let s1 = add_task ex_now ''Buy milk'' '''' None empty_store;
       s2 = mark_complete 1 s1;
       s3 = delete_task 1 s2
   in tasks s1 = [\<lparr>task_id = 1, description = ''Buy milk'', category = '''', completed = False,
                    created_at = ''2026-11-09 10:00:00'', due_date = None\<rparr>]
      \<and> map completed (tasks s2) = [True]
      \<and> tasks s3 = []
      \<and> last (out s3) = DeletedMsg 1 ''Buy milk''
      \<and> display_tasks ex_today False (tasks s3) = ([NoTasksMsg], None)"
  by (simp add: ex_defs add_task_def new_task_def commit_def save_tasks_def mark_complete_def
      delete_task_def py_pop_def display_tasks_def strftime_ymd_hms_def strftime_ymd_def zpad_def
      show_nat.simps digit_char_def)

text \<open>Example: the specification's scenario run through the whole program from an
  empty disk: the task is added in category \<open>General\<close> (the menu's default),
  marked, deleted, the listing reports "No tasks found.", and option 6 ends the
  session normally with the list empty.\<close>

lemma main_session_scenario:
  "map_option (\<lambda>(s, e). (tasks s, filter is_status (out s), e)) (main ex_now empty_disk ex_session)
   = Some ([], [TaskAddedMsg ''Buy milk'' ''General'' None, MarkedMsg 1, DeletedMsg 1 ''Buy milk'', NoTasksMsg],
            Exited)"
  by (simp add: ex_defs menu_eval menu_text_def Let_def cong: menu_res.case_cong_weak)

section \<open>Witnesses\<close>

theorem mark_complete_marks_first_witness:
  "tasks (mark_complete 2 ex_store) = [ex_t1] @ ex_t2\<lparr>completed := True\<rparr> # []
   \<and> content (disk (mark_complete 2 ex_store))
       = Some (json_dumps (json_of_tasks ([ex_t1] @ ex_t2\<lparr>completed := True\<rparr> # [])))
   \<and> out (mark_complete 2 ex_store) = out ex_store @ [MarkedMsg 2]"
  by (rule Store.mark_complete_marks_first [of ex_store "[ex_t1]" ex_t2 "[]" 2]) (simp_all add: ex_defs)

theorem mark_complete_not_found_witness:
  "mark_complete 7 ex_store = ex_store\<lparr>out := out ex_store @ [NotFoundMsg 7]\<rparr>"
  by (rule Store.mark_complete_not_found) (simp add: ex_defs)

theorem delete_task_removes_first_witness:
  "tasks (delete_task 1 ex_store) = [] @ [ex_t2]
   \<and> content (disk (delete_task 1 ex_store)) = Some (json_dumps (json_of_tasks ([] @ [ex_t2])))
   \<and> out (delete_task 1 ex_store) = out ex_store @ [DeletedMsg 1 (description ex_t1)]"
  by (rule Store.delete_task_removes_first [of ex_store "[]" ex_t1 "[ex_t2]" 1]) (simp_all add: ex_defs)

theorem delete_task_not_found_witness:
  "delete_task 7 ex_store = ex_store\<lparr>out := out ex_store @ [NotFoundMsg 7]\<rparr>"
  by (rule Store.delete_task_not_found) (simp add: ex_defs)

theorem add_task_appends_witness:
  "write_error (disk ex_store) = None
   \<and> (\<exists>t. tasks (add_task ex_now ''Call mom'' ''Personal'' None ex_store) = tasks ex_store @ [t]
          \<and> task_id t = 3
          \<and> content (disk (add_task ex_now ''Call mom'' ''Personal'' None ex_store))
              = Some (json_dumps (json_of_tasks (tasks ex_store @ [t]))))"
proof -
  have w: "write_error (disk ex_store) = None" by (simp add: ex_defs)
  have n: "int (length (tasks ex_store)) + 1 = 3" by (simp add: ex_defs)
  from w n Store.add_task_appends [of ex_now "''Call mom''" "''Personal''" None ex_store]
  show ?thesis by auto
qed

theorem ids_unique_without_delete_witness:
  "distinct (map task_id (tasks (store_run empty_store
     [AddOp ex_now ''a'' ''Work'' None, CompleteOp 1, AddOp ex_now ''b'' ''Work'' None])))"
  by (rule Store.ids_unique_without_delete) (simp_all add: ex_defs ids_consecutive_def)

theorem ids_collide_after_delete_witness:
  "\<not> distinct (map task_id (tasks (add_task ex_now ''Call mom'' ''Personal'' None (delete_task (task_id ex_t1) ex_store))))"
  by (rule Store.ids_collide_after_delete [where t = ex_t2]) (simp_all add: ex_defs)

theorem store_run_completion_monotone_witness:
  "evolves 1 (tasks ex_store) (tasks (store_run ex_store [CompleteOp 1, DeleteOp 2, AddOp ex_now ''x'' ''W'' None]))"
  using Store.store_run_completion_monotone [of "[CompleteOp 1, DeleteOp 2, AddOp ex_now ''x'' ''W'' None]" ex_store]
  by simp

theorem mark_complete_idempotent_witness:
  "tasks (mark_complete 2 ex_store) = tasks ex_store \<and> last (out (mark_complete 2 ex_store)) = MarkedMsg 2"
  by (rule Store.mark_complete_idempotent [of ex_store "[ex_t1]" ex_t2 "[]" 2]) (simp_all add: ex_defs)

theorem save_failure_keeps_memory_witness:
  "disk (store_step ex_locked (DeleteOp 1)) = disk ex_locked
   \<and> tasks (store_step ex_locked (DeleteOp 1)) = tasks (store_step (ex_locked\<lparr>disk := empty_disk\<rparr>) (DeleteOp 1))"
  by (rule Store.save_failure_keeps_memory) (simp add: ex_defs)

theorem validate_date_accepts_witness:
  "\<exists>d. strptime_ymd ''2030-1-5'' = Some d \<and> valid_date d \<and> \<not> date_less d ex_today
       \<and> ''2030-01-05'' = strftime_ymd d \<and> length ''2030-01-05'' = 10"
  by (rule Dates.validate_date_accepts) (simp add: ex_defs model_defs show_nat.simps)

theorem validate_date_idempotent_witness:
  "validate_date ex_today ''2030-01-05'' = Inr ''2030-01-05''"
  by (rule Dates.validate_date_idempotent [of _ "''2030-1-5''"]) (simp add: ex_defs model_defs show_nat.simps)

theorem validate_date_lenient_format_witness:
  "validate_date ex_today ''2030-1-5'' = Inr ''2030-01-05'' \<and> validate_date ex_today ''2030-1- 5'' = Inr ''2030-01-05''"
  using Dates.validate_date_lenient_format [where d = "\<lparr>year = 2030, month = 1, day = 5\<rparr>" and today = ex_today]
  by (simp add: ex_defs model_defs show_nat.simps)

theorem due_status_overdue_iff_witness:
  "suffix '' (Overdue)'' '' | Due: 2026-11-08 (Overdue)'' \<longleftrightarrow>
     \<not> completed ex_t3 \<and> (\<exists>s dd. due_date ex_t3 = Some s \<and> strptime_ymd s = Some dd \<and> date_less dd ex_today)"
  by (rule Store.due_status_overdue_iff) (simp add: ex_defs model_defs)

theorem display_tasks_rows_witness:
  "display_tasks ex_today True [ex_t1, ex_t3] =
     (if [ex_t1, ex_t3] = [] then [NoTasksMsg]
      else map (\<lambda>t. task_row t (the (due_status ex_today t))) (filter (\<lambda>t. \<not> (True \<and> completed t)) [ex_t1, ex_t3]),
      None)"
  by (rule Store.display_tasks_rows) (simp add: ex_defs due_ok_def due_str_ok_def model_defs)

theorem display_incomplete_silent_witness:
  "display_tasks ex_today True [ex_t2] = ([], None)"
  by (rule Store.display_incomplete_silent_when_all_done) (simp_all add: ex_defs)

theorem display_never_raises_after_run_witness:
  "snd (display_tasks ex_today False (tasks (store_run empty_store
      [AddOp ex_now ''Pay rent'' ''General'' (Some ''2030-01-05''), CompleteOp 1]))) = None"
  by (rule display_never_raises_after_run [of empty_store _ ex_today])
     (simp_all add: ex_defs model_defs show_nat.simps)

lemma json_roundtrip_example:
  "json_loads (json_dumps (JObj [(''id'', JInt (-12)), (''tags'', JArr [JStr (''caf'' @ [CHR 0xE9]), JNull, JBool True])]))
   = Some (JObj [(''id'', JInt (-12)), (''tags'', JArr [JStr (''caf'' @ [CHR 0xE9]), JNull, JBool True])])"
  by (rule json_loads_dumps) simp

theorem save_load_roundtrip_witness:
  "load_tasks (fst (save_tasks [ex_t1, ex_t2] empty_disk)) = (json_of_tasks [ex_t1, ex_t2], [])"
  by (rule Storage.save_load_roundtrip) (simp_all add: ex_defs)

theorem store_run_persists_witness:
  "load_tasks (disk (store_run ex_synced [AddOp ex_now ''Call mom'' ''Personal'' None, DeleteOp 1, CompleteOp 9]))
   = (json_of_tasks (tasks (store_run ex_synced [AddOp ex_now ''Call mom'' ''Personal'' None, DeleteOp 1, CompleteOp 9])), [])"
  by (rule store_run_persists) (simp_all add: ex_defs synced_def)

theorem load_malformed_file_witness:
  "load_tasks (empty_disk\<lparr>content := Some ''{not json''\<rparr>) = (JArr [], [InvalidJsonMsg])
   \<and> main ex_now (empty_disk\<lparr>content := Some ''{not json''\<rparr>) [''4'', ''6''] \<noteq> None
   \<and> map_option (\<lambda>(s, e). (tasks s, e)) (main ex_now (empty_disk\<lparr>content := Some ''{not json''\<rparr>) [''4'', ''6''])
     = map_option (\<lambda>(s, e). (tasks s, e)) (main ex_now (empty_disk\<lparr>content := Some ''{not json''\<rparr>\<lparr>content := None\<rparr>) [''4'', ''6''])"
  by (rule Session.load_malformed_file [where str = "''{not json''"]) (simp_all add: ex_defs model_defs numeral_eq_Suc)

theorem main_loop_refines_store_witness:
  "\<exists>ops. (\<forall>op \<in> set ops. op_validated (date_of ex_now) op)
         \<and> tasks (fst (main_loop ex_now empty_store ex_session)) = tasks (store_run empty_store ops)
         \<and> disk (fst (main_loop ex_now empty_store ex_session)) = disk (store_run empty_store ops)"
  by (rule Session.main_loop_refines_store)

theorem main_loop_no_value_error_witness:
  "snd (main_loop ex_now ex_store [''5'', ''4'', ''6'']) \<noteq> Raised ValueError"
  by (rule Session.main_loop_no_value_error) (simp add: ex_defs due_ok_def due_str_ok_def model_defs)

theorem main_persists_witness:
  "tasks_of_json (fst (load_tasks (disk (fst (the (main ex_now empty_disk ex_session))))))
   = Some (tasks (fst (the (main ex_now empty_disk ex_session))))"
  by (rule Session.main_persists [where d = empty_disk and now = ex_now and inp = ex_session and e = "snd (the (main ex_now empty_disk ex_session))"])
     (simp_all add: ex_defs menu_eval Let_def cong: menu_res.case_cong_weak)

theorem menu_empty_description_witness:
  "menu_iter ex_now ex_store [''1'', ''   '', ''6''] =
     Continue (emit (Text ''Error: Task description cannot be empty.'')
                (emit (Prompt ''Enter task description: '') (show_menu ex_store))) [''6'']"
  by (rule Menu.menu_empty_description) (simp_all add: py_strip_def is_py_space_def)

theorem menu_invalid_date_witness:
  "\<exists>s'. menu_iter ex_now ex_store [''1'', ''Pay rent'', [], ''2026-02-30'', ''6''] = Continue s' [''6'']
        \<and> tasks s' = tasks ex_store \<and> disk s' = disk ex_store
        \<and> last (out s') = Text (''Error: '' @ date_error_msg InvalidFormat)"
  by (rule Menu.menu_invalid_date) (simp_all add: ex_defs py_strip_def is_py_space_def model_defs date_of_def)

theorem menu_category_default_witness:
  "\<exists>s'. menu_iter ex_now ex_store [''1'', '' Pay rent '', ''  '', [], ''6''] = Continue s' [''6'']
        \<and> tasks s' = tasks ex_store @ [new_task ex_now (tasks ex_store) (py_strip '' Pay rent '') ''General'' None]"
  by (rule Menu.menu_category_default) (simp_all add: py_strip_def is_py_space_def)

theorem menu_invalid_id_witness:
  "\<exists>s'. menu_iter ex_now ex_store [''3'', ''1.5'', ''6''] = Continue s' [''6'']
        \<and> tasks s' = tasks ex_store \<and> disk s' = disk ex_store
        \<and> last (out s') = Text ''Error: Please enter a valid numeric ID.''"
  by (rule Menu.menu_invalid_id) (simp_all add: py_strip_def is_py_space_def py_int_def int_strip_def is_int_space_def dec_literal_def is_digit_def)

theorem menu_exit_witness:
  "main_loop ex_now ex_store [''6 '', ''1'', ''never read''] =
     (emit (Text ''Thank you for using Task Manager by Zeshan Noor.'') (show_menu ex_store), Exited)"
  by (rule Menu.menu_exit) (simp add: py_strip_def is_py_space_def)

theorem created_at_format_witness:
  "length (strftime_ymd_hms ex_now) = 19
   \<and> strftime_ymd_hms ex_now ! 4 = CHR ''-'' \<and> strftime_ymd_hms ex_now ! 7 = CHR ''-''
   \<and> strftime_ymd_hms ex_now ! 10 = CHR '' '' \<and> strftime_ymd_hms ex_now ! 13 = CHR '':''
   \<and> strftime_ymd_hms ex_now ! 16 = CHR '':''"
  by (rule Dates.created_at_format) (simp_all add: ex_defs)

theorem main_loop_views_then_exit_witness:
  "snd (main_loop ex_now ex_store [''4'', ''5'', ''4'', ''6'', ''1'']) = Exited"
  using Session.main_loop_views_then_exit [of ex_store "[''4'', ''5'', ''4'']" ex_now "[''1'']"]
  by (simp add: ex_defs due_ok_def due_str_ok_def model_defs)

theorem main_loop_ids_positive_witness:
  "list_all (\<lambda>t. 0 < task_id t) (tasks ex_store)
   \<and> list_all (\<lambda>t. 0 < task_id t) (tasks (fst (main_loop ex_now ex_store ex_session)))"
proof -
  have pos: "\<forall>t \<in> set (tasks ex_store). 0 < task_id t" by (simp add: ex_defs)
  have "\<forall>t \<in> set (tasks (fst (main_loop ex_now ex_store ex_session))). 0 < task_id t"
    using pos by (rule Session.main_loop_ids_positive)
  with pos show ?thesis by (simp only: list_all_iff simp_thms)
qed

end
